theory Spec2Isabelle
  imports Complex_Main "HOL-Library.Sublist"
begin

section \<open>JavaScript values used by Home.tsx\<close>

subsection \<open>Numbers\<close>

text \<open>
  A JavaScript number is NaN, an infinity or a finite value. Only comparison,
  \<open>Math.min\<close> and \<open>Math.max\<close> are applied to numbers in Home.tsx, so a finite value is
  kept as the rational it denotes (every finite double is one).
\<close>

datatype jsnumber = NaN | NegInfinity | Finite rat | PosInfinity

fun js_less :: "jsnumber \<Rightarrow> jsnumber \<Rightarrow> bool" where
  "js_less NaN _ = False"
| "js_less _ NaN = False"
| "js_less NegInfinity NegInfinity = False"
| "js_less NegInfinity _ = True"
| "js_less (Finite a) (Finite b) = (a < b)"
| "js_less (Finite a) PosInfinity = True"
| "js_less (Finite a) NegInfinity = False"
| "js_less PosInfinity _ = False"

text \<open>\<open>Math.min\<close> and \<open>Math.max\<close> answer NaN as soon as one argument is NaN.\<close>

definition Math_min :: "jsnumber \<Rightarrow> jsnumber \<Rightarrow> jsnumber" where
  "Math_min a b = (if a = NaN \<or> b = NaN then NaN else if js_less b a then b else a)"

definition Math_max :: "jsnumber \<Rightarrow> jsnumber \<Rightarrow> jsnumber" where
  "Math_max a b = (if a = NaN \<or> b = NaN then NaN else if js_less a b then b else a)"

text \<open>\<open>Number(x)\<close> applied to a value that is a number already.\<close>

definition Number_of :: "jsnumber \<Rightarrow> jsnumber" where
  "Number_of x = x"


subsection \<open>Strings\<close>

text \<open>\<open>s.includes(sub)\<close>: \<open>sub\<close> occurs in \<open>s\<close> as a contiguous run.\<close>

fun str_includes :: "string \<Rightarrow> string \<Rightarrow> bool" where
  "str_includes [] sub = (sub = [])"
| "str_includes (c # cs) sub = (prefix sub (c # cs) \<or> str_includes cs sub)"

text \<open>Decimal rendering of a counter inside a template literal.\<close>

definition digit_char :: "nat \<Rightarrow> char" where
  "digit_char d = ''0123456789'' ! d"

function string_of_nat :: "nat \<Rightarrow> string" where
  "string_of_nat n =
     (if n < 10 then [digit_char n]
      else string_of_nat (n div 10) @ [digit_char (n mod 10)])"
  by pat_completeness auto
termination
  by (relation "measure (\<lambda>n. n)") auto

subsection \<open>The regular expression of parseError\<close>

text \<open>
  The literal is \<^verbatim>\<open>/"message":\s*"(.*?)"/g\<close>. Characters are the 8-bit characters of
  \<^typ>\<open>string\<close>; among them the white space of \<^verbatim>\<open>\s\<close> is TAB, LF, VT, FF, CR, SP and
  NBSP, and the line terminators that \<^verbatim>\<open>.\<close> refuses are LF and CR.
\<close>

definition isWhiteSpace :: "char \<Rightarrow> bool" where
  "isWhiteSpace c =
     (c = CHR 0x09 \<or> c = CHR 0x0A \<or> c = CHR 0x0B \<or> c = CHR 0x0C \<or> c = CHR 0x0D
      \<or> c = CHR 0x20 \<or> c = CHR 0xA0)"

definition isLineTerminator :: "char \<Rightarrow> bool" where
  "isLineTerminator c = (c = CHR 0x0A \<or> c = CHR 0x0D)"

definition message_key :: string where
  "message_key = CHR 0x22 # ''message'' @ [CHR 0x22, CHR '':'']"

text \<open>
  A match that starts at the head of \<open>s\<close>: the key, the longest run of white space
  (a shorter run would be followed by white space, not by the quote), a quote, and then
  the lazy group, which stops at the first quote it can reach and cannot step over a
  line terminator. The result is the captured group and the length of the match.
\<close>

definition match_here :: "string \<Rightarrow> (string \<times> nat) option" where
  "match_here s =
     (if prefix message_key s then
        (let afterKey = drop (length message_key) s;
             spaces = takeWhile isWhiteSpace afterKey
         in case dropWhile isWhiteSpace afterKey of
              [] \<Rightarrow> None
            | q # body \<Rightarrow>
                if q = CHR 0x22 then
                  (let captured = takeWhile (\<lambda>c. c \<noteq> CHR 0x22) body
                   in if length captured < length body \<and> \<not> list_ex isLineTerminator captured
                      then Some (captured,
                                 length message_key + length spaces + 1 + length captured + 1)
                      else None)
                else None)
      else None)"

text \<open>The leftmost match in \<open>s\<close>: the captured group and the index just after the match.\<close>

fun match_first :: "string \<Rightarrow> (string \<times> nat) option" where
  "match_first [] = None"
| "match_first (c # cs) =
     (case match_here (c # cs) of
        Some m \<Rightarrow> Some m
      | None \<Rightarrow> map_option (\<lambda>(captured, e). (captured, Suc e)) (match_first cs))"

text \<open>
  The \<open>g\<close> flag makes \<open>exec\<close> stateful: the search starts at the object's
  \<open>lastIndex\<close>, which a match moves to the end of the match and a failure resets to 0.
\<close>

definition exec_from :: "nat \<Rightarrow> string \<Rightarrow> string option \<times> nat" where
  "exec_from lastIndex s =
     (if length s < lastIndex then (None, 0)
      else case match_first (drop lastIndex s) of
             None \<Rightarrow> (None, 0)
           | Some (captured, e) \<Rightarrow> (Some captured, lastIndex + e))"

text \<open>
  RegExp objects live in a store that holds the \<open>lastIndex\<close> of each object allocated so
  far; evaluating the literal allocates a new object with \<open>lastIndex = 0\<close>.
\<close>

type_synonym regexp_heap = "nat list"

definition new_RegExp :: "regexp_heap \<Rightarrow> nat \<times> regexp_heap" where
  "new_RegExp h = (length h, h @ [0])"

definition RegExp_exec :: "nat \<Rightarrow> string \<Rightarrow> regexp_heap \<Rightarrow> string option \<times> regexp_heap" where
  "RegExp_exec r s h =
     (if r < length h
      then (let (m, lastIndex') = exec_from (h ! r) s in (m, h[r := lastIndex']))
      else (None, h))"

section \<open>parseError\<close>

text \<open>What React renders as the error text: a string or the JSX fragment of parseError.\<close>

datatype react_node =
    Text string
  | Br
  | Anchor string string
  | Fragment "react_node list"

definition rate_limit_notice :: react_node where
  "rate_limit_notice =
     Fragment
       [Text ''You've exceeded your current API quota (Rate Limit). This is a usage limit on Google's servers.'',
        Br, Br,
        Text ''Please check your plan and billing details, or try again after some time. For more information, visit the'',
        Text '' '',
        Anchor ''https://ai.google.dev/gemini-api/docs/rate-limits''
               ''Gemini API rate limits documentation'',
        Text ''.'']"

definition parseError :: "string \<Rightarrow> regexp_heap \<Rightarrow> react_node \<times> regexp_heap" where
  "parseError error h =
     (if str_includes error ''429'' \<and> str_includes error ''RESOURCE_EXHAUSTED''
      then (rate_limit_notice, h)
      else (let (regex, h1) = new_RegExp h;
                (match, h2) = RegExp_exec regex error h1
            in case match of
                 Some m1 \<Rightarrow> if m1 \<noteq> [] then (Text m1, h2) else (Text error, h2)
               | None \<Rightarrow> (Text error, h2)))"

section \<open>The component state and its collaborators\<close>

text \<open>The \<open>useState\<close> cells of \<open>Home\<close>. An object URL is opaque and chosen by the browser,
  unique for the life of the document; it is kept as the serial number of the
  \<open>URL.createObjectURL\<close> call that made it.\<close>

type_synonym object_url = nat

record uploaded_image =
  upload_data :: string
  upload_mimeType :: string
  upload_name :: string

record session =
  prompt :: string
  generatedVideos :: "object_url list"
  isLoading :: bool
  loadingMessage :: string
  showErrorModal :: bool
  errorMessage :: react_node
  showSettings :: bool
  uploadedImage :: "uploaded_image option"
  numberOfVideos :: jsnumber
  aspectRatio :: string

definition initial_session :: session where
  "initial_session =
     \<lparr>prompt = [], generatedVideos = [], isLoading = False, loadingMessage = [],
      showErrorModal = False, errorMessage = Text [], showSettings = False,
      uploadedImage = None, numberOfVideos = Finite 1, aspectRatio = ''16:9''\<rparr>"

text \<open>The argument of \<open>ai.models.generateVideos\<close>.\<close>

record image_part =
  imageBytes :: string
  mimeType :: string

record config =
  config_numberOfVideos :: jsnumber
  config_aspectRatio :: string

record payload =
  payload_model :: string
  payload_prompt :: string
  payload_config :: config
  payload_image :: "image_part option"

text \<open>The long-running operation of the SDK, as far as \<open>handleSubmit\<close> reads it:
  \<open>done\<close> (absent counts as false), \<open>response?.generatedVideos\<close> (either may be absent)
  and \<open>video.uri\<close> of each entry. \<open>op_name\<close> stands for the rest of the handle.\<close>

record generated_video =
  video_uri :: string

record operation_response =
  response_generatedVideos :: "generated_video list option"

record operation =
  op_name :: string
  op_done :: bool
  op_response :: "operation_response option"

text \<open>What \<open>fetch\<close> resolves to: \<open>ok\<close>, \<open>statusText\<close>, and what \<open>blob()\<close> settles to.\<close>

type_synonym blob = string

record fetch_response =
  fetch_ok :: bool
  fetch_statusText :: string
  fetch_blob :: "string + blob"

text \<open>
  The remote service and the network during one run. A rejected promise is \<open>Inl\<close> of the
  error's message. The answers may change from call to call, so a poll is given the
  number of polls made before it and a download the number of downloads made before it.
\<close>

record env =
  generateVideos :: "payload \<Rightarrow> string + operation"
  getVideosOperation :: "nat \<Rightarrow> operation \<Rightarrow> string + operation"
  fetch :: "nat \<Rightarrow> string \<Rightarrow> string + fetch_response"
  API_KEY :: string

text \<open>What a run does that can be seen from outside while it is suspended, in order.\<close>

datatype effect =
    Sleep nat
  | GenerateVideos payload
  | GetVideosOperation operation
  | Fetch string
  | CreateObjectURL blob object_url
  | RevokeObjectURL object_url
  | SetLoadingMessage string
  | ConsoleError string

text \<open>The browser: how many object URLs were created, the RegExp objects, and the log.\<close>

record browser =
  created :: nat
  regexps :: regexp_heap
  effects :: "effect list"

text \<open>The application: the rendered state, the browser, and the payloads of the
  \<open>handleSubmit\<close> calls that are suspended at \<open>await ai.models.generateVideos(payload)\<close>.\<close>

record app =
  ui :: session
  web :: browser
  inflight :: "payload list"

definition initial_app :: app where
  "initial_app =
     \<lparr>ui = initial_session, web = \<lparr>created = 0, regexps = [], effects = []\<rparr>, inflight = []\<rparr>"

section \<open>handleSubmit\<close>

subsection \<open>The polling loop\<close>

definition maxPolls :: nat where
  "maxPolls = 60"

definition polling_message :: "nat \<Rightarrow> string" where
  "polling_message pollCount =
     ''Polling for status ('' @ string_of_nat pollCount @ ''/'' @ string_of_nat maxPolls
       @ '')... Please wait.''"

text \<open>The \<open>while\<close> loop: the operation and the counter when the loop ends (or the error
  a poll raised), and the effects in order.\<close>

function pollLoop :: "env \<Rightarrow> operation \<Rightarrow> nat \<Rightarrow> (string + operation) \<times> nat \<times> effect list" where
  "pollLoop e operation pollCount =
     (if \<not> op_done operation \<and> pollCount < maxPolls then
        (case getVideosOperation e pollCount operation of
           Inl err \<Rightarrow> (Inl err, pollCount, [Sleep 10000, GetVideosOperation operation])
         | Inr operation' \<Rightarrow>
             (case pollLoop e operation' (pollCount + 1) of
                (r, n, effs) \<Rightarrow>
                  (r, n,
                   [Sleep 10000, GetVideosOperation operation,
                    SetLoadingMessage (polling_message (pollCount + 1))] @ effs)))
      else (Inr operation, pollCount, []))"
  by pat_completeness auto
termination
  by (relation "measure (\<lambda>(e, operation, pollCount). maxPolls - pollCount)") auto

declare pollLoop.simps [simp del]

subsection \<open>The download loop\<close>

text \<open>The \<open>for\<close> loop over \<open>operation.response.generatedVideos\<close>: \<open>k\<close> downloads were
  made before, \<open>n\<close> object URLs exist, \<open>videoUrls\<close> is the array built so far.\<close>

fun fetchVideos ::
  "env \<Rightarrow> generated_video list \<Rightarrow> nat \<Rightarrow> nat \<Rightarrow> object_url list
     \<Rightarrow> (string + object_url list) \<times> nat \<times> effect list" where
  "fetchVideos e [] k n videoUrls = (Inr videoUrls, n, [])"
| "fetchVideos e (videoData # rest) k n videoUrls =
     (let url = video_uri videoData @ ''&key='' @ API_KEY e in
      case fetch e k url of
        Inl err \<Rightarrow> (Inl err, n, [Fetch url])
      | Inr videoResponse \<Rightarrow>
          if \<not> fetch_ok videoResponse
          then (Inl (''Failed to download video: '' @ fetch_statusText videoResponse),
                n, [Fetch url])
          else (case fetch_blob videoResponse of
                  Inl err \<Rightarrow> (Inl err, n, [Fetch url])
                | Inr b \<Rightarrow>
                    (case fetchVideos e rest (k + 1) (n + 1) (videoUrls @ [n]) of
                       (r, n', effs) \<Rightarrow> (r, n', [Fetch url, CreateObjectURL b n] @ effs))))"

subsection \<open>The body of the try block after the request is sent\<close>

definition timed_out :: string where
  "timed_out = ''Video generation timed out. Please try again.''"

definition no_result :: string where
  "no_result = ''Video generation failed to produce a result. Please check your prompt and settings.''"

definition videos_of :: "operation \<Rightarrow> generated_video list option" where
  "videos_of operation =
     (case op_response operation of None \<Rightarrow> None | Some r \<Rightarrow> response_generatedVideos r)"

text \<open>From the answer to \<open>generateVideos\<close> to the end of the try block: the array given
  to \<open>setGeneratedVideos\<close> or the message of the error thrown, the number of object URLs
  afterwards, and the effects.\<close>

definition generate :: "env \<Rightarrow> payload \<Rightarrow> nat \<Rightarrow> (string + object_url list) \<times> nat \<times> effect list" where
  "generate e p n =
     (case generateVideos e p of
        Inl err \<Rightarrow> (Inl err, n, [])
      | Inr operation0 \<Rightarrow>
          (case pollLoop e operation0 0 of
             (polled, pollCount, pollEffects) \<Rightarrow>
               (let effs = SetLoadingMessage ''Generating video... This can take a few minutes.''
                             # pollEffects
                in case polled of
                     Inl err \<Rightarrow> (Inl err, n, effs)
                   | Inr operation \<Rightarrow>
                       if \<not> op_done operation then (Inl timed_out, n, effs)
                       else (case videos_of operation of
                               None \<Rightarrow> (Inl no_result, n, effs)
                             | Some videos \<Rightarrow>
                                 if videos = [] then (Inl no_result, n, effs)
                                 else (case fetchVideos e videos 0 n [] of
                                         (r, n', fetchEffects) \<Rightarrow>
                                           (r, n',
                                            effs @ SetLoadingMessage ''Fetching video data...''
                                                     # fetchEffects))))))"

subsection \<open>The catch block\<close>

definition not_found_marker :: string where
  "not_found_marker = ''Requested entity was not found''"

definition model_not_found :: "string \<Rightarrow> string" where
  "model_not_found modelInUse =
     ''Error: The model '' @ [CHR 0x27] @ modelInUse @ [CHR 0x27]
       @ '' was not found. Please check the model name.''"

text \<open>What the catch block gives to \<open>setErrorMessage\<close> for an error with message
  \<open>message\<close>, with \<open>payload\<close> assigned as it always is when something throws.\<close>

definition classify :: "payload \<Rightarrow> string \<Rightarrow> regexp_heap \<Rightarrow> react_node \<times> regexp_heap" where
  "classify p message h =
     (let rawMessage = (if message = [] then ''An unexpected error occurred.'' else message);
          modelInUse = (if payload_model p = [] then ''the model'' else payload_model p)
      in if str_includes rawMessage not_found_marker
         then (Text (model_not_found modelInUse), h)
         else parseError rawMessage h)"

subsection \<open>The handler\<close>

definition validation_message :: string where
  "validation_message = ''Please enter a prompt or upload an image to generate a video.''"

definition build_payload :: "session \<Rightarrow> payload" where
  "build_payload s =
     \<lparr>payload_model = ''veo-2.0-generate-001'',
      payload_prompt = prompt s,
      payload_config =
        \<lparr>config_numberOfVideos = Number_of (numberOfVideos s),
         config_aspectRatio = aspectRatio s\<rparr>,
      payload_image =
        (case uploadedImage s of
           None \<Rightarrow> None
         | Some img \<Rightarrow> Some \<lparr>imageBytes = upload_data img, mimeType = upload_mimeType img\<rparr>)\<rparr>"

text \<open>\<open>handleSubmit\<close> up to its first suspension: the validation, the release of the
  shown videos and the call of \<open>generateVideos\<close>, whose answer is awaited.\<close>

definition handleSubmit_begin :: "app \<Rightarrow> app" where
  "handleSubmit_begin a =
     (let s = ui a in
      if prompt s = [] \<and> uploadedImage s = None
      then a\<lparr>ui := s\<lparr>errorMessage := Text validation_message, showErrorModal := True\<rparr>\<rparr>
      else
        (let initializing = ''Initializing video generation...'';
             p = build_payload s
         in a\<lparr>ui := s\<lparr>isLoading := True, generatedVideos := [],
                        loadingMessage := initializing\<rparr>,
               web := (web a)\<lparr>effects :=
                         effects (web a) @ map RevokeObjectURL (generatedVideos s)
                           @ [SetLoadingMessage initializing, GenerateVideos p]\<rparr>,
               inflight := inflight a @ [p]\<rparr>))"

text \<open>The rest of the suspended call number \<open>i\<close>, run against \<open>e\<close> to its end: the
  try block, the catch block and the finally block.\<close>

definition handleSubmit_resume :: "env \<Rightarrow> nat \<Rightarrow> app \<Rightarrow> app" where
  "handleSubmit_resume e i a =
     (if i < length (inflight a) then
        (let p = inflight a ! i;
             waiting = take i (inflight a) @ drop (Suc i) (inflight a);
             w = web a
         in case generate e p (created w) of
              (Inr videoUrls, n, effs) \<Rightarrow>
                a\<lparr>ui := (ui a)\<lparr>generatedVideos := videoUrls, isLoading := False,
                                  loadingMessage := []\<rparr>,
                  web := w\<lparr>created := n,
                           effects := effects w @ effs @ [SetLoadingMessage []]\<rparr>,
                  inflight := waiting\<rparr>
            | (Inl message, n, effs) \<Rightarrow>
                (case classify p message (regexps w) of
                   (shown, h) \<Rightarrow>
                     a\<lparr>ui := (ui a)\<lparr>errorMessage := shown, showErrorModal := True,
                                       isLoading := False, loadingMessage := []\<rparr>,
                       web := \<lparr>created = n, regexps = h,
                               effects = effects w @ effs
                                           @ [ConsoleError message, SetLoadingMessage []]\<rparr>,
                       inflight := waiting\<rparr>))
      else a)"

text \<open>A call of \<open>handleSubmit\<close> that nothing interrupts.\<close>

definition handleSubmit :: "env \<Rightarrow> app \<Rightarrow> app" where
  "handleSubmit e a = handleSubmit_resume e (length (inflight a)) (handleSubmit_begin a)"

section \<open>The other handlers and the page\<close>

definition handleClear :: "app \<Rightarrow> app" where
  "handleClear a =
     a\<lparr>ui := (ui a)\<lparr>generatedVideos := [], prompt := [], uploadedImage := None,
                      numberOfVideos := Finite 1, aspectRatio := ''16:9''\<rparr>,
       web := (web a)\<lparr>effects :=
                 effects (web a) @ map RevokeObjectURL (generatedVideos (ui a))\<rparr>\<rparr>"

definition handleRemoveImage :: "session \<Rightarrow> session" where
  "handleRemoveImage s = s\<lparr>uploadedImage := None\<rparr>"

definition closeErrorModal :: "session \<Rightarrow> session" where
  "closeErrorModal s = s\<lparr>showErrorModal := False\<rparr>"

text \<open>The \<open>onChange\<close> of the number field, given \<open>Number(e.target.value)\<close>.\<close>

definition changeNumberOfVideos :: "jsnumber \<Rightarrow> session \<Rightarrow> session" where
  "changeNumberOfVideos v s =
     (let val = Math_max (Finite 1) (Math_min (Finite 4) v) in s\<lparr>numberOfVideos := val\<rparr>)"

definition aspectRatios :: "string list" where
  "aspectRatios = [''16:9'', ''9:16'', ''1:1'', ''4:3'', ''3:4'']"

text \<open>The form: its only submit button carries \<open>disabled={isLoading}\<close>, so while
  \<open>isLoading\<close> is rendered true neither a click nor the Enter key submits the form, and
  \<open>handleSubmit\<close> is not called.\<close>

definition submitForm :: "app \<Rightarrow> app" where
  "submitForm a = (if isLoading (ui a) then a else handleSubmit_begin a)"

text \<open>What can happen to the page: what the user does, and the settling of a suspended
  \<open>handleSubmit\<close> call against the service. \<open>ImageLoaded\<close> is the \<open>onload\<close> callback of
  \<open>handleImageUpload\<close> with the record it stores; the aspect-ratio buttons exist for the
  five listed ratios only. \<open>handleDownload\<close> changes neither the state nor an object URL
  and is left out. Between its first suspension and its end a call of \<open>handleSubmit\<close>
  only calls \<open>setLoadingMessage\<close> (kept in the log), the service, the network and
  \<open>URL.createObjectURL\<close>, and what it does at its end has no suspension in it, so the
  rest of the call is one event.\<close>

datatype event =
    TypePrompt string
  | ImageLoaded uploaded_image
  | RemoveImage
  | ToggleSettings
  | CloseSettings
  | ChangeNumberOfVideos jsnumber
  | ClickAspectRatio string
  | CloseErrorModal
  | ClickClear
  | Submit
  | Settle nat env

fun step :: "event \<Rightarrow> app \<Rightarrow> app" where
  "step (TypePrompt v) a = a\<lparr>ui := (ui a)\<lparr>prompt := v\<rparr>\<rparr>"
| "step (ImageLoaded img) a = a\<lparr>ui := (ui a)\<lparr>uploadedImage := Some img\<rparr>\<rparr>"
| "step RemoveImage a = a\<lparr>ui := handleRemoveImage (ui a)\<rparr>"
| "step ToggleSettings a = a\<lparr>ui := (ui a)\<lparr>showSettings := \<not> showSettings (ui a)\<rparr>\<rparr>"
| "step CloseSettings a = a\<lparr>ui := (ui a)\<lparr>showSettings := False\<rparr>\<rparr>"
| "step (ChangeNumberOfVideos v) a = a\<lparr>ui := changeNumberOfVideos v (ui a)\<rparr>"
| "step (ClickAspectRatio r) a =
     (if r \<in> set aspectRatios then a\<lparr>ui := (ui a)\<lparr>aspectRatio := r\<rparr>\<rparr> else a)"
| "step CloseErrorModal a = a\<lparr>ui := closeErrorModal (ui a)\<rparr>"
| "step ClickClear a = handleClear a"
| "step Submit a = submitForm a"
| "step (Settle i e) a = handleSubmit_resume e i a"

text \<open>The page after a sequence of events, the first event first.\<close>

fun run :: "event list \<Rightarrow> app \<Rightarrow> app" where
  "run [] a = a"
| "run (ev # evs) a = run evs (step ev a)"

section \<open>Notions used in the statements\<close>

text \<open>The handle held after \<open>k\<close> polls: each poll is given the handle the poll before
  returned (a poll that raises leaves the handle as it is, and ends the run).\<close>

fun handle_after :: "env \<Rightarrow> operation \<Rightarrow> nat \<Rightarrow> operation" where
  "handle_after e operation0 0 = operation0"
| "handle_after e operation0 (Suc k) =
     (case getVideosOperation e k (handle_after e operation0 k) of
        Inl err \<Rightarrow> handle_after e operation0 k
      | Inr operation' \<Rightarrow> operation')"

text \<open>What poll number \<open>k\<close> (counted from 0) is seen to do when the service answers it:
  wait, query with the current handle, report the new count.\<close>

definition poll_round :: "env \<Rightarrow> operation \<Rightarrow> nat \<Rightarrow> effect list" where
  "poll_round e operation0 k =
     [Sleep 10000, GetVideosOperation (handle_after e operation0 k),
      SetLoadingMessage (polling_message (k + 1))]"

fun total_sleep :: "effect list \<Rightarrow> nat" where
  "total_sleep [] = 0"
| "total_sleep (Sleep d # effs) = d + total_sleep effs"
| "total_sleep (_ # effs) = total_sleep effs"

fun polls :: "effect list \<Rightarrow> operation list" where
  "polls [] = []"
| "polls (GetVideosOperation operation # effs) = operation # polls effs"
| "polls (_ # effs) = polls effs"

fun fetches :: "effect list \<Rightarrow> string list" where
  "fetches [] = []"
| "fetches (Fetch url # effs) = url # fetches effs"
| "fetches (_ # effs) = fetches effs"

fun revocations :: "effect list \<Rightarrow> object_url list" where
  "revocations [] = []"
| "revocations (RevokeObjectURL h # effs) = h # revocations effs"
| "revocations (_ # effs) = revocations effs"

fun requests :: "effect list \<Rightarrow> payload list" where
  "requests [] = []"
| "requests (GenerateVideos p # effs) = p # requests effs"
| "requests (_ # effs) = requests effs"

text \<open>Download number \<open>j\<close> of the run succeeds: \<open>fetch\<close> resolves, the response is
  \<open>ok\<close>, and its body can be read.\<close>

definition retrieved :: "env \<Rightarrow> generated_video list \<Rightarrow> nat \<Rightarrow> bool" where
  "retrieved e videos j =
     (case fetch e j (video_uri (videos ! j) @ ''&key='' @ API_KEY e) of
        Inl err \<Rightarrow> False
      | Inr r \<Rightarrow> fetch_ok r \<and> (case fetch_blob r of Inl err \<Rightarrow> False | Inr b \<Rightarrow> True))"

text \<open>The object URLs released so far, in the order of release.\<close>

definition revoked :: "app \<Rightarrow> object_url list" where
  "revoked a = revocations (effects (web a))"

text \<open>The video counts of the requests sent so far.\<close>

definition requested_counts :: "app \<Rightarrow> jsnumber list" where
  "requested_counts a =
     map (\<lambda>p. config_numberOfVideos (payload_config p)) (requests (effects (web a)))"


text \<open>What holds of the page whatever has happened: no object URL is shown or
  released twice, none is both shown and released, every one of them was created, at
  most one call of \<open>handleSubmit\<close> is suspended, \<open>isLoading\<close> says whether one is, and
  nothing is shown while one is.\<close>

definition consistent :: "app \<Rightarrow> bool" where
  "consistent a =
     (distinct (generatedVideos (ui a)) \<and> distinct (revoked a)
      \<and> set (generatedVideos (ui a)) \<inter> set (revoked a) = {}
      \<and> (\<forall>h \<in> set (generatedVideos (ui a)) \<union> set (revoked a). h < created (web a))
      \<and> length (inflight a) \<le> 1
      \<and> (isLoading (ui a) \<longleftrightarrow> inflight a \<noteq> [])
      \<and> (isLoading (ui a) \<longrightarrow> generatedVideos (ui a) = []))"

text \<open>An object URL is accounted for: it is shown and not released, or it is not shown
  and was released exactly once.\<close>

definition accounted :: "app \<Rightarrow> object_url \<Rightarrow> bool" where
  "accounted a h =
     (if h \<in> set (generatedVideos (ui a)) then count_list (revoked a) h = 0
      else count_list (revoked a) h = 1)"

section \<open>Example inputs\<close>

text \<open>A page on which the user has typed a prompt, and services that behave in the
  ways the properties below are about.\<close>

definition cat_app :: app where
  "cat_app = step (TypePrompt ''a cat on a skateboard'') initial_app"

definition pending_operation :: operation where
  "pending_operation = \<lparr>op_name = ''operations/1'', op_done = False, op_response = None\<rparr>"

definition finished_operation :: "string list \<Rightarrow> operation" where
  "finished_operation uris =
     \<lparr>op_name = ''operations/1'', op_done = True,
      op_response =
        Some \<lparr>response_generatedVideos = Some (map (\<lambda>u. \<lparr>video_uri = u\<rparr>) uris)\<rparr>\<rparr>"

definition ok_response :: fetch_response where
  "ok_response = \<lparr>fetch_ok = True, fetch_statusText = ''OK'', fetch_blob = Inr ''mp4 bytes''\<rparr>"

definition forbidden_response :: fetch_response where
  "forbidden_response =
     \<lparr>fetch_ok = False, fetch_statusText = ''Forbidden'', fetch_blob = Inr []\<rparr>"

text \<open>The job is done at the third poll and both videos download.\<close>

definition good_env :: env where
  "good_env =
     \<lparr>generateVideos = (\<lambda>p. Inr pending_operation),
      getVideosOperation =
        (\<lambda>k operation. if k < 2 then Inr pending_operation
                        else Inr (finished_operation [''https://v/1?alt=media'', ''https://v/2?alt=media''])),
      fetch = (\<lambda>k url. Inr ok_response),
      API_KEY = ''KEY''\<rparr>"

text \<open>The page after that run, showing two videos, with the prompt emptied.\<close>

definition showing_app :: app where
  "showing_app = step (TypePrompt []) (handleSubmit good_env cat_app)"

text \<open>Two runs and a click on the bin.\<close>

definition two_runs :: "event list" where
  "two_runs =
     [TypePrompt ''a cat on a skateboard'', Submit, Settle 0 good_env,
      Submit, Submit, ClickClear, Settle 0 good_env, ClickClear]"



text \<open>The job never finishes.\<close>

definition stalled_env :: env where
  "stalled_env = good_env\<lparr>getVideosOperation := (\<lambda>k operation. Inr pending_operation)\<rparr>"

text \<open>The job is done when it is created, with nothing in it.\<close>

definition empty_env :: env where
  "empty_env =
     good_env\<lparr>generateVideos :=
       (\<lambda>p. Inr \<lparr>op_name = ''operations/1'', op_done = True,
                  op_response = Some \<lparr>response_generatedVideos = Some []\<rparr>\<rparr>)\<rparr>"

text \<open>The second download is refused.\<close>

definition forbidden_env :: env where
  "forbidden_env =
     good_env\<lparr>fetch := (\<lambda>k url. if k = 1 then Inr forbidden_response else Inr ok_response)\<rparr>"

text \<open>The service refuses the request with a message that carries the quota markers,
  with and without the marker of a missing entity.\<close>

definition quota_message :: string where
  "quota_message = ''got status: 429 RESOURCE_EXHAUSTED. Quota exceeded.''"

definition quota_env :: env where
  "quota_env = good_env\<lparr>generateVideos := (\<lambda>p. Inl quota_message)\<rparr>"

definition mixed_message :: string where
  "mixed_message = ''got status: 429 RESOURCE_EXHAUSTED. Requested entity was not found.''"

definition mixed_env :: env where
  "mixed_env = good_env\<lparr>generateVideos := (\<lambda>p. Inl mixed_message)\<rparr>"

section \<open>Auxiliary facts\<close>

subsection \<open>parseError and the catch block\<close>

lemma exec_fresh:
  "RegExp_exec (length h) s (h @ [0]) = (fst (exec_from 0 s), h @ [snd (exec_from 0 s)])"
  by (simp add: RegExp_exec_def split: prod.splits)

lemma parseError_fresh:
  "parseError error h =
     (if str_includes error ''429'' \<and> str_includes error ''RESOURCE_EXHAUSTED''
      then (rate_limit_notice, h)
      else (case fst (exec_from 0 error) of
              Some m1 \<Rightarrow> if m1 \<noteq> [] then Text m1 else Text error
            | None \<Rightarrow> Text error,
            h @ [snd (exec_from 0 error)]))"
  by (simp add: parseError_def new_RegExp_def exec_fresh split: option.splits)

text \<open>The object's state is real: a second \<open>exec\<close> on the same object would start
  after the first match and find nothing.\<close>

lemma exec_is_stateful:
  \<open>exec_from 0 ''"message":"a"'' = (Some ''a'', 13) \<and> exec_from 13 ''"message":"a"'' = (None, 0)\<close>
  by (simp add: exec_from_def match_here_def message_key_def isWhiteSpace_def
      isLineTerminator_def)

lemma classify_plain:
  assumes "\<not> str_includes m not_found_marker" and "\<not> str_includes m ''429''"
    and "match_first m = None" and "m \<noteq> []"
  shows "classify p m h = (Text m, h @ [0])"
  using assms by (simp add: classify_def parseError_fresh exec_from_def)

lemma no_result_plain:
  "\<not> str_includes no_result not_found_marker"
  "\<not> str_includes no_result ''429''"
  "match_first no_result = None"
  "no_result \<noteq> []"
  by (simp_all add: no_result_def not_found_marker_def match_here_def message_key_def)

lemma timed_out_plain:
  "\<not> str_includes timed_out not_found_marker"
  "\<not> str_includes timed_out ''429''"
  "match_first timed_out = None"
  "timed_out \<noteq> []"
  by (simp_all add: timed_out_def not_found_marker_def match_here_def message_key_def)

subsection \<open>One uninterrupted call of handleSubmit\<close>

lemma begin_invalid:
  assumes "prompt (ui a) = []" and "uploadedImage (ui a) = None"
  shows "handleSubmit_begin a =
           a\<lparr>ui := (ui a)\<lparr>errorMessage := Text validation_message, showErrorModal := True\<rparr>\<rparr>"
  using assms by (simp add: handleSubmit_begin_def)

lemma begin_valid:
  assumes "\<not> (prompt (ui a) = [] \<and> uploadedImage (ui a) = None)"
  shows "handleSubmit_begin a =
           a\<lparr>ui := (ui a)\<lparr>isLoading := True, generatedVideos := [],
                           loadingMessage := ''Initializing video generation...''\<rparr>,
             web := (web a)\<lparr>effects :=
                       effects (web a) @ map RevokeObjectURL (generatedVideos (ui a))
                         @ [SetLoadingMessage ''Initializing video generation...'',
                            GenerateVideos (build_payload (ui a))]\<rparr>,
             inflight := inflight a @ [build_payload (ui a)]\<rparr>"
  using assms by (auto simp add: handleSubmit_begin_def Let_def)

lemma handleSubmit_invalid:
  assumes "prompt (ui a) = []" and "uploadedImage (ui a) = None"
  shows "handleSubmit e a =
           a\<lparr>ui := (ui a)\<lparr>errorMessage := Text validation_message, showErrorModal := True\<rparr>\<rparr>"
  using assms by (simp add: handleSubmit_def begin_invalid handleSubmit_resume_def)

lemma handleSubmit_fails:
  assumes "\<not> (prompt (ui a) = [] \<and> uploadedImage (ui a) = None)"
    and "generate e (build_payload (ui a)) (created (web a)) = (Inl m, n, effs)"
  shows "handleSubmit e a =
           \<lparr>ui = (ui a)\<lparr>generatedVideos := [],
                        errorMessage := fst (classify (build_payload (ui a)) m (regexps (web a))),
                        showErrorModal := True, isLoading := False, loadingMessage := []\<rparr>,
            web = \<lparr>created = n,
                   regexps = snd (classify (build_payload (ui a)) m (regexps (web a))),
                   effects = effects (web a) @ map RevokeObjectURL (generatedVideos (ui a))
                     @ [SetLoadingMessage ''Initializing video generation...'',
                        GenerateVideos (build_payload (ui a))]
                     @ effs @ [ConsoleError m, SetLoadingMessage []]\<rparr>,
            inflight = inflight a\<rparr>"
  using assms
  by (cases a)
    (simp add: handleSubmit_def begin_valid handleSubmit_resume_def Let_def split: prod.splits)

lemma handleSubmit_succeeds:
  assumes "\<not> (prompt (ui a) = [] \<and> uploadedImage (ui a) = None)"
    and "generate e (build_payload (ui a)) (created (web a)) = (Inr videoUrls, n, effs)"
  shows "handleSubmit e a =
           \<lparr>ui = (ui a)\<lparr>generatedVideos := videoUrls, isLoading := False, loadingMessage := []\<rparr>,
            web = \<lparr>created = n,
                   regexps = regexps (web a),
                   effects = effects (web a) @ map RevokeObjectURL (generatedVideos (ui a))
                     @ [SetLoadingMessage ''Initializing video generation...'',
                        GenerateVideos (build_payload (ui a))]
                     @ effs @ [SetLoadingMessage []]\<rparr>,
            inflight = inflight a\<rparr>"
  using assms
  by (cases a)
    (simp add: handleSubmit_def begin_valid handleSubmit_resume_def Let_def split: prod.splits)

lemma cat_app_simps:
  "prompt (ui cat_app) = ''a cat on a skateboard''"
  "uploadedImage (ui cat_app) = None"
  "generatedVideos (ui cat_app) = []"
  "isLoading (ui cat_app) = False"
  "web cat_app = \<lparr>created = 0, regexps = [], effects = []\<rparr>"
  "inflight cat_app = []"
  by (simp_all add: cat_app_def initial_app_def initial_session_def)

lemma initial_app_simps:
  "prompt (ui initial_app) = []"
  "uploadedImage (ui initial_app) = None"
  "generatedVideos (ui initial_app) = []"
  "isLoading (ui initial_app) = False"
  "numberOfVideos (ui initial_app) = Finite 1"
  "aspectRatio (ui initial_app) = ''16:9''"
  "web initial_app = \<lparr>created = 0, regexps = [], effects = []\<rparr>"
  "inflight initial_app = []"
  by (simp_all add: initial_app_def initial_session_def)

subsection \<open>The polling loop\<close>

lemma total_sleep_append: "total_sleep (xs @ ys) = total_sleep xs + total_sleep ys"
  by (induction xs rule: total_sleep.induct) simp_all

lemma fetches_append: "fetches (xs @ ys) = fetches xs @ fetches ys"
  by (induction xs rule: fetches.induct) simp_all

lemma polls_append: "polls (xs @ ys) = polls xs @ polls ys"
  by (induction xs rule: polls.induct) simp_all

lemma revocations_append: "revocations (xs @ ys) = revocations xs @ revocations ys"
  by (induction xs rule: revocations.induct) simp_all

lemma requests_append: "requests (xs @ ys) = requests xs @ requests ys"
  by (induction xs rule: requests.induct) simp_all

lemma revocations_map: "revocations (map RevokeObjectURL hs) = hs"
  by (induction hs) simp_all

lemma fetches_map_revoke: "fetches (map RevokeObjectURL hs) = []"
  by (induction hs) simp_all

lemma requests_map_revoke: "requests (map RevokeObjectURL hs) = []"
  by (induction hs) simp_all

text \<open>The loop in general: it waits and polls at most maxPolls - pollCount times and
  fetches, creates, releases and requests nothing.\<close>

lemma pollLoop_bounds:
  "total_sleep (snd (snd (pollLoop e operation pollCount))) \<le> 10000 * (maxPolls - pollCount)
   \<and> length (polls (snd (snd (pollLoop e operation pollCount)))) \<le> maxPolls - pollCount
   \<and> fetches (snd (snd (pollLoop e operation pollCount))) = []
   \<and> revocations (snd (snd (pollLoop e operation pollCount))) = []
   \<and> requests (snd (snd (pollLoop e operation pollCount))) = []"
proof (induction e operation pollCount rule: pollLoop.induct)
  case (1 e operation pollCount)
  show ?case
  proof (cases "\<not> op_done operation \<and> pollCount < maxPolls")
    case False
    then have "pollLoop e operation pollCount = (Inr operation, pollCount, [])"
      by (subst pollLoop.simps) auto
    then show ?thesis by simp
  next
    case True
    show ?thesis
    proof (cases "getVideosOperation e pollCount operation")
      case (Inl err)
      with True have "pollLoop e operation pollCount =
                        (Inl err, pollCount, [Sleep 10000, GetVideosOperation operation])"
        by (subst pollLoop.simps) simp
      with True show ?thesis by auto
    next
      case (Inr operation')
      obtain r n effs where rec: "pollLoop e operation' (pollCount + 1) = (r, n, effs)"
        by (cases "pollLoop e operation' (pollCount + 1)") auto
      have unfold: "pollLoop e operation pollCount =
              (r, n, [Sleep 10000, GetVideosOperation operation,
                      SetLoadingMessage (polling_message (pollCount + 1))] @ effs)"
        using True Inr rec by (subst pollLoop.simps) simp
      from "1.IH" [OF True Inr] rec True show ?thesis
        unfolding unfold by auto
    qed
  qed
qed

lemma poll_rounds_from:
  assumes stalled: "\<forall>k<maxPolls. \<exists>operation'.
              getVideosOperation e k (handle_after e operation0 k) = Inr operation'
              \<and> \<not> op_done operation'"
    and pending: "\<not> op_done operation0"
  shows "k \<le> maxPolls \<Longrightarrow>
         pollLoop e (handle_after e operation0 k) k =
           (Inr (handle_after e operation0 maxPolls), maxPolls,
            concat (map (poll_round e operation0) [k..<maxPolls]))"
proof (induction "maxPolls - k" arbitrary: k)
  case 0
  then have "k = maxPolls" by simp
  then show ?case by (subst pollLoop.simps) simp
next
  case (Suc d)
  from Suc.hyps(2) have less: "k < maxPolls" by simp
  from stalled less obtain operation' where
    answer: "getVideosOperation e k (handle_after e operation0 k) = Inr operation'"
    and still: "\<not> op_done operation'" by blast
  have next_handle: "handle_after e operation0 (Suc k) = operation'"
    using answer by simp
  have not_done: "\<not> op_done (handle_after e operation0 k)"
  proof (cases k)
    case 0
    with pending show ?thesis by simp
  next
    case (Suc j)
    with less have "j < maxPolls" by simp
    with stalled obtain o' where
      "getVideosOperation e j (handle_after e operation0 j) = Inr o'" "\<not> op_done o'" by blast
    with Suc show ?thesis by simp
  qed
  have IH: "pollLoop e operation' (Suc k) =
              (Inr (handle_after e operation0 maxPolls), maxPolls,
               concat (map (poll_round e operation0) [Suc k..<maxPolls]))"
    using Suc.hyps(1) [of "Suc k"] Suc.hyps(2) less next_handle by simp
  have range: "[k..<maxPolls] = k # [Suc k..<maxPolls]"
    using less by (simp add: upt_conv_Cons)
  have "pollLoop e (handle_after e operation0 k) k =
          (case pollLoop e operation' (Suc k) of
             (r, n, effs) \<Rightarrow> (r, n, poll_round e operation0 k @ effs))"
    using less not_done answer by (subst pollLoop.simps) (simp add: poll_round_def)
  also have "\<dots> = (Inr (handle_after e operation0 maxPolls), maxPolls,
                   poll_round e operation0 k
                     @ concat (map (poll_round e operation0) [Suc k..<maxPolls]))"
    by (simp only: IH prod.case)
  also have "poll_round e operation0 k
               @ concat (map (poll_round e operation0) [Suc k..<maxPolls])
             = concat (map (poll_round e operation0) [k..<maxPolls])"
    by (simp only: range list.map concat.simps)
  finally show ?case .
qed

lemma total_sleep_rounds:
  "total_sleep (concat (map (poll_round e operation0) [k..<k + d])) = 10000 * d"
  by (induction d) (simp_all add: total_sleep_append poll_round_def)

lemma fetches_rounds: "fetches (concat (map (poll_round e operation0) ks)) = []"
  by (induction ks) (simp_all add: poll_round_def)

lemma polls_rounds:
  "polls (concat (map (poll_round e operation0) ks)) = map (handle_after e operation0) ks"
  by (induction ks) (simp_all add: poll_round_def)

subsection \<open>The download loop\<close>

text \<open>The ways one download can end.\<close>

lemma fetchVideos_stops:
  "fetch e k (video_uri videoData @ ''&key='' @ API_KEY e) = Inl err \<Longrightarrow>
     fetchVideos e (videoData # rest) k n acc
       = (Inl err, n, [Fetch (video_uri videoData @ ''&key='' @ API_KEY e)])"
  "fetch e k (video_uri videoData @ ''&key='' @ API_KEY e) = Inr r \<Longrightarrow> \<not> fetch_ok r \<Longrightarrow>
     fetchVideos e (videoData # rest) k n acc
       = (Inl (''Failed to download video: '' @ fetch_statusText r), n,
          [Fetch (video_uri videoData @ ''&key='' @ API_KEY e)])"
  "fetch e k (video_uri videoData @ ''&key='' @ API_KEY e) = Inr r \<Longrightarrow> fetch_ok r \<Longrightarrow>
   fetch_blob r = Inl err \<Longrightarrow>
     fetchVideos e (videoData # rest) k n acc
       = (Inl err, n, [Fetch (video_uri videoData @ ''&key='' @ API_KEY e)])"
  by (simp_all add: Let_def)

lemma fetchVideos_goes_on:
  assumes "fetch e k (video_uri videoData @ ''&key='' @ API_KEY e) = Inr r"
    and "fetch_ok r" and "fetch_blob r = Inr b"
    and "fetchVideos e rest (Suc k) (Suc n) (acc @ [n]) = (r1, n1, effs1)"
  shows "fetchVideos e (videoData # rest) k n acc =
           (r1, n1, Fetch (video_uri videoData @ ''&key='' @ API_KEY e)
                      # CreateObjectURL b n # effs1)"
  using assms by (simp add: Let_def)

declare fetchVideos.simps(2) [simp del]

lemma fetchVideos_profile:
  "fetchVideos e vs k n acc = (r, n', effs) \<Longrightarrow>
     n \<le> n' \<and> revocations effs = [] \<and> requests effs = []
     \<and> (\<forall>urls. r = Inr urls \<longrightarrow> urls = acc @ [n..<n'] \<and> n' = n + length vs)"
proof (induction vs arbitrary: k n acc r n' effs)
  case Nil
  then show ?case by auto
next
  case (Cons videoData rest)
  show ?case
  proof (cases "fetch e k (video_uri videoData @ ''&key='' @ API_KEY e)")
    case (Inl err)
    from Cons.prems show ?thesis unfolding fetchVideos_stops(1) [OF Inl] by auto
  next
    case (Inr videoResponse)
    show ?thesis
    proof (cases "fetch_ok videoResponse")
      case False
      from Cons.prems show ?thesis unfolding fetchVideos_stops(2) [OF Inr False] by auto
    next
      case True
      show ?thesis
      proof (cases "fetch_blob videoResponse")
        case (Inl err)
        from Cons.prems show ?thesis unfolding fetchVideos_stops(3) [OF Inr True Inl] by auto
      next
        case b: (Inr b)
        obtain r1 n1 effs1 where
          rec: "fetchVideos e rest (Suc k) (Suc n) (acc @ [n]) = (r1, n1, effs1)"
          by (cases "fetchVideos e rest (Suc k) (Suc n) (acc @ [n])") auto
        from Cons.prems have
          eqs: "r = r1" "n' = n1"
               "effs = Fetch (video_uri videoData @ ''&key='' @ API_KEY e)
                         # CreateObjectURL b n # effs1"
          unfolding fetchVideos_goes_on [OF Inr True b rec] by auto
        note IH = Cons.IH [OF rec]
        from IH have le: "Suc n \<le> n1" by (rule conjunct1)
        from IH have quiet: "revocations effs1 = []" "requests effs1 = []" by blast+
        from IH have all: "\<forall>urls. r1 = Inr urls \<longrightarrow>
                 urls = (acc @ [n]) @ [Suc n..<n1] \<and> n1 = Suc n + length rest"
          by blast
        have upt: "[n..<n1] = n # [Suc n..<n1]"
          using le by (simp add: upt_conv_Cons)
        have "n \<le> n1" using le by simp
        moreover have "revocations effs = []" "requests effs = []"
          unfolding eqs using quiet by simp_all
        moreover have "\<forall>urls. r = Inr urls \<longrightarrow>
                 urls = acc @ [n..<n'] \<and> n' = n + length (videoData # rest)"
        proof (intro allI impI)
          fix urls
          assume "r = Inr urls"
          with eqs(1) all have u: "urls = (acc @ [n]) @ [Suc n..<n1]"
            and n1: "n1 = Suc n + length rest" by blast+
          have "urls = acc @ [n..<n1]"
            by (simp only: u upt append_assoc append_Cons append_Nil)
          moreover have "n1 = n + length (videoData # rest)"
            using n1 by simp
          ultimately show "urls = acc @ [n..<n'] \<and> n' = n + length (videoData # rest)"
            unfolding eqs(2) by (rule conjI)
        qed
        ultimately show ?thesis unfolding eqs(2) by blast
      qed
    qed
  qed
qed

lemma fetchVideos_refused:
  assumes "j < length videos"
    and "fetch e j (video_uri (videos ! j) @ ''&key='' @ API_KEY e) = Inr r"
    and "\<not> fetch_ok r"
  shows "k \<le> j \<Longrightarrow> \<forall>i. k \<le> i \<and> i < j \<longrightarrow> retrieved e videos i \<Longrightarrow>
         fst (fetchVideos e (drop k videos) k n acc)
           = Inl (''Failed to download video: '' @ fetch_statusText r)"
proof (induction "j - k" arbitrary: k n acc)
  case 0
  then have "k = j" by simp
  moreover have "drop j videos = videos ! j # drop (Suc j) videos"
    using assms(1) by (simp add: Cons_nth_drop_Suc)
  ultimately show ?case by (simp add: fetchVideos_stops(2) [OF assms(2,3)])
next
  case (Suc d)
  from Suc.hyps(2) Suc.prems(1) have less: "k < j" by simp
  with assms(1) have klen: "k < length videos" by simp
  have split: "drop k videos = videos ! k # drop (Suc k) videos"
    using klen by (simp add: Cons_nth_drop_Suc)
  from Suc.prems(2) less have "retrieved e videos k" by simp
  then obtain rk b where
    got: "fetch e k (video_uri (videos ! k) @ ''&key='' @ API_KEY e) = Inr rk"
         "fetch_ok rk" "fetch_blob rk = Inr b"
    by (auto simp add: retrieved_def split: sum.splits)
  obtain r1 n1 effs1 where
    rec: "fetchVideos e (drop (Suc k) videos) (Suc k) (Suc n) (acc @ [n]) = (r1, n1, effs1)"
    by (cases "fetchVideos e (drop (Suc k) videos) (Suc k) (Suc n) (acc @ [n])") auto
  have "fst (fetchVideos e (drop (Suc k) videos) (Suc k) (Suc n) (acc @ [n]))
              = Inl (''Failed to download video: '' @ fetch_statusText r)"
    using Suc.hyps(1) [of "Suc k"] Suc.hyps(2) less Suc.prems(2) by simp
  with rec have "r1 = Inl (''Failed to download video: '' @ fetch_statusText r)" by simp
  then show ?case
    unfolding split fetchVideos_goes_on [OF got rec] by simp
qed

lemma fetchVideos_complete:
  "k \<le> length videos \<Longrightarrow>
   fetchVideos e (drop k videos) k n acc = (Inr urls, n', effs) \<Longrightarrow>
   (\<forall>i. k \<le> i \<and> i < length videos \<longrightarrow> retrieved e videos i)"
proof (induction "length videos - k" arbitrary: k n acc effs)
  case 0
  then show ?case by auto
next
  case (Suc d)
  from Suc.hyps(2) have klen: "k < length videos" by simp
  have split: "drop k videos = videos ! k # drop (Suc k) videos"
    using klen by (simp add: Cons_nth_drop_Suc)
  let ?url = "video_uri (videos ! k) @ ''&key='' @ API_KEY e"
  from Suc.prems(2) have whole:
    "fetchVideos e (videos ! k # drop (Suc k) videos) k n acc = (Inr urls, n', effs)"
    unfolding split .
  obtain rk where f: "fetch e k ?url = Inr rk"
  proof (cases "fetch e k ?url")
    case (Inl err)
    from fetchVideos_stops(1) [OF Inl] whole have False by simp
    then show ?thesis ..
  next
    case (Inr rk)
    then show ?thesis by (rule that)
  qed
  have ok: "fetch_ok rk"
  proof (rule ccontr)
    assume "\<not> fetch_ok rk"
    from fetchVideos_stops(2) [OF f this] whole show False by simp
  qed
  obtain b where b: "fetch_blob rk = Inr b"
  proof (cases "fetch_blob rk")
    case (Inl err)
    from fetchVideos_stops(3) [OF f ok Inl] whole have False by simp
    then show ?thesis ..
  next
    case (Inr b)
    then show ?thesis by (rule that)
  qed
  obtain r1 n1 effs1 where
    rec: "fetchVideos e (drop (Suc k) videos) (Suc k) (Suc n) (acc @ [n]) = (r1, n1, effs1)"
    by (cases "fetchVideos e (drop (Suc k) videos) (Suc k) (Suc n) (acc @ [n])") auto
  from whole have "r1 = Inr urls" and "n1 = n'"
    unfolding fetchVideos_goes_on [OF f ok b rec] by simp_all
  with rec have rest:
    "fetchVideos e (drop (Suc k) videos) (Suc k) (Suc n) (acc @ [n]) = (Inr urls, n', effs1)"
    by simp
  have here: "retrieved e videos k"
    using f ok b by (simp add: retrieved_def)
  have later: "\<forall>i. Suc k \<le> i \<and> i < length videos \<longrightarrow> retrieved e videos i"
    using Suc.hyps(1) [of "Suc k", OF _ _ rest] Suc.hyps(2) klen by simp
  show ?case
  proof (intro allI impI)
    fix i assume i: "k \<le> i \<and> i < length videos"
    show "retrieved e videos i"
    proof (cases "i = k")
      case True
      with here show ?thesis by simp
    next
      case False
      with i have "Suc k \<le> i \<and> i < length videos" by simp
      with later show ?thesis by blast
    qed
  qed
qed

subsection \<open>Whole runs\<close>

lemma stalled_handles: "handle_after stalled_env pending_operation k = pending_operation"
  by (induction k) (simp_all add: stalled_env_def)

lemma generate_timeout:
  assumes "generateVideos e p = Inr operation0"
    and "pollLoop e operation0 0 = (Inr operation, k, effs)"
    and "\<not> op_done operation"
  shows "generate e p n =
           (Inl timed_out, n,
            SetLoadingMessage ''Generating video... This can take a few minutes.'' # effs)"
  using assms by (simp add: generate_def)

lemma generate_no_result:
  assumes "generateVideos e p = Inr operation0"
    and "pollLoop e operation0 0 = (Inr operation, k, effs)"
    and "op_done operation"
    and "videos_of operation = None \<or> videos_of operation = Some []"
  shows "generate e p n =
           (Inl no_result, n,
            SetLoadingMessage ''Generating video... This can take a few minutes.'' # effs)"
  using assms by (auto simp add: generate_def)

lemma generate_fetches:
  assumes "generateVideos e p = Inr operation0"
    and "pollLoop e operation0 0 = (Inr operation, k, effs)"
    and "op_done operation"
    and "videos_of operation = Some videos" and "videos \<noteq> []"
    and "fetchVideos e videos 0 n [] = (r, n', fetchEffects)"
  shows "generate e p n =
           (r, n',
            SetLoadingMessage ''Generating video... This can take a few minutes.'' # effs
              @ SetLoadingMessage ''Fetching video data...'' # fetchEffects)"
  using assms by (simp add: generate_def)

lemma payload_model_built: "payload_model (build_payload s) = ''veo-2.0-generate-001''"
  by (simp add: build_payload_def)

lemma classify_quota:
  assumes "str_includes m ''429''" and "str_includes m ''RESOURCE_EXHAUSTED''"
  shows "fst (classify (build_payload s) m h) =
           (if str_includes m not_found_marker
            then Text (model_not_found ''veo-2.0-generate-001'') else rate_limit_notice)"
proof -
  have "m \<noteq> []" using assms(1) by auto
  then show ?thesis
    using assms by (simp add: classify_def parseError_fresh payload_model_built)
qed

lemma quota_message_markers:
  "str_includes quota_message ''429''"
  "str_includes quota_message ''RESOURCE_EXHAUSTED''"
  "\<not> str_includes quota_message not_found_marker"
  by (simp_all add: quota_message_def not_found_marker_def)

lemma mixed_message_markers:
  "str_includes mixed_message ''429''"
  "str_includes mixed_message ''RESOURCE_EXHAUSTED''"
  "str_includes mixed_message not_found_marker"
  by (simp_all add: mixed_message_def not_found_marker_def)

lemma forbidden_plain:
  "\<not> str_includes ''Failed to download video: Forbidden'' not_found_marker"
  "\<not> str_includes ''Failed to download video: Forbidden'' ''429''"
  "match_first ''Failed to download video: Forbidden'' = None"
  "''Failed to download video: Forbidden'' \<noteq> []"
  by (simp_all add: not_found_marker_def match_here_def message_key_def)

lemma good_polls:
  "pollLoop (good_env\<lparr>fetch := f\<rparr>) pending_operation 0 =
     (Inr (finished_operation [''https://v/1?alt=media'', ''https://v/2?alt=media'']), 3,
      [Sleep 10000, GetVideosOperation pending_operation,
       SetLoadingMessage ''Polling for status (1/60)... Please wait.'',
       Sleep 10000, GetVideosOperation pending_operation,
       SetLoadingMessage ''Polling for status (2/60)... Please wait.'',
       Sleep 10000, GetVideosOperation pending_operation,
       SetLoadingMessage ''Polling for status (3/60)... Please wait.''])"
  by (simp add: pollLoop.simps good_env_def pending_operation_def finished_operation_def
      maxPolls_def polling_message_def digit_char_def)

subsection \<open>What each handler does to the videos, the log and the counters\<close>

lemma generate_profile:
  assumes "generate e p n = (r, n', effs)"
  shows "n \<le> n' \<and> revocations effs = [] \<and> requests effs = []
         \<and> (\<forall>urls. r = Inr urls \<longrightarrow> urls = [n..<n'])"
proof (cases "generateVideos e p")
  case (Inl err)
  with assms show ?thesis by (auto simp add: generate_def)
next
  case (Inr operation0)
  obtain polled pollCount pollEffects where
    loop: "pollLoop e operation0 0 = (polled, pollCount, pollEffects)"
    by (cases "pollLoop e operation0 0") auto
  have quiet: "revocations pollEffects = []" "requests pollEffects = []"
    using pollLoop_bounds [of e operation0 0] loop by simp_all
  show ?thesis
  proof (cases polled)
    case (Inl err)
    with assms Inr loop quiet show ?thesis by (auto simp add: generate_def)
  next
    case op: (Inr operation)
    show ?thesis
    proof (cases "op_done operation \<and> (\<exists>videos. videos_of operation = Some videos \<and> videos \<noteq> [])")
      case False
      have "generate e p n =
              (Inl (if op_done operation then no_result else timed_out), n,
               SetLoadingMessage ''Generating video... This can take a few minutes.''
                 # pollEffects)"
      proof (cases "op_done operation")
        case fin: True
        with False have "videos_of operation = None \<or> videos_of operation = Some []"
          by (cases "videos_of operation") auto
        from generate_no_result [OF Inr loop [unfolded op] fin this] fin
        show ?thesis by simp
      next
        case pending: False
        from generate_timeout [OF Inr loop [unfolded op] pending] pending
        show ?thesis by simp
      qed
      with assms have "r = Inl (if op_done operation then no_result else timed_out)"
        "n' = n"
        "effs = SetLoadingMessage ''Generating video... This can take a few minutes.''
                  # pollEffects"
        by simp_all
      with quiet show ?thesis by simp
    next
      case True
      then obtain videos where
        v: "op_done operation" "videos_of operation = Some videos" "videos \<noteq> []" by blast
      obtain res m fetchEffects where
        dl: "fetchVideos e videos 0 n [] = (res, m, fetchEffects)"
        by (cases "fetchVideos e videos 0 n []") auto
      from generate_fetches [OF Inr loop [unfolded op] v dl] assms have
        eqs: "r = res" "n' = m"
             "effs = SetLoadingMessage ''Generating video... This can take a few minutes.''
                       # pollEffects @ SetLoadingMessage ''Fetching video data...'' # fetchEffects"
        by simp_all
      from fetchVideos_profile [OF dl] have
        prof: "n \<le> m" "revocations fetchEffects = []" "requests fetchEffects = []"
              "\<forall>urls. res = Inr urls \<longrightarrow> urls = [] @ [n..<m]"
        by blast+
      show ?thesis
        unfolding eqs using prof quiet
        by (simp add: revocations_append requests_append)
    qed
  qed
qed

text \<open>What a settled call leaves behind.\<close>

lemma resume_profile:
  assumes "i < length (inflight a)"
  shows "revoked (handleSubmit_resume e i a) = revoked a
         \<and> requested_counts (handleSubmit_resume e i a) = requested_counts a
         \<and> created (web a) \<le> created (web (handleSubmit_resume e i a))
         \<and> \<not> isLoading (ui (handleSubmit_resume e i a))
         \<and> inflight (handleSubmit_resume e i a) = take i (inflight a) @ drop (Suc i) (inflight a)
         \<and> numberOfVideos (ui (handleSubmit_resume e i a)) = numberOfVideos (ui a)
         \<and> prompt (ui (handleSubmit_resume e i a)) = prompt (ui a)
         \<and> uploadedImage (ui (handleSubmit_resume e i a)) = uploadedImage (ui a)
         \<and> (generatedVideos (ui (handleSubmit_resume e i a)) = generatedVideos (ui a)
              \<or> generatedVideos (ui (handleSubmit_resume e i a))
                  = [created (web a)..<created (web (handleSubmit_resume e i a))])"
proof -
  obtain r n' effs where
    gen: "generate e (inflight a ! i) (created (web a)) = (r, n', effs)"
    by (cases "generate e (inflight a ! i) (created (web a))") auto
  note prof = generate_profile [OF gen]
  show ?thesis
  proof (cases r)
    case (Inl m)
    with assms gen prof show ?thesis
      by (simp add: handleSubmit_resume_def Let_def revoked_def requested_counts_def
          revocations_append requests_append split: prod.splits)
  next
    case (Inr urls)
    with assms gen prof show ?thesis
      by (simp add: handleSubmit_resume_def Let_def revoked_def requested_counts_def
          revocations_append requests_append split: prod.splits)
  qed
qed

lemma resume_idle: "\<not> i < length (inflight a) \<Longrightarrow> handleSubmit_resume e i a = a"
  by (simp add: handleSubmit_resume_def)

lemma begin_profile:
  assumes "\<not> (prompt (ui a) = [] \<and> uploadedImage (ui a) = None)"
  shows "revoked (handleSubmit_begin a) = revoked a @ generatedVideos (ui a)"
    and "requested_counts (handleSubmit_begin a)
           = requested_counts a @ [numberOfVideos (ui a)]"
    and "generatedVideos (ui (handleSubmit_begin a)) = []"
    and "isLoading (ui (handleSubmit_begin a))"
    and "inflight (handleSubmit_begin a) = inflight a @ [build_payload (ui a)]"
    and "created (web (handleSubmit_begin a)) = created (web a)"
    and "numberOfVideos (ui (handleSubmit_begin a)) = numberOfVideos (ui a)"
  unfolding begin_valid [OF assms]
  by (simp_all add: revoked_def requested_counts_def revocations_append requests_append
      revocations_map requests_map_revoke build_payload_def Number_of_def)

lemma begin_invalid_profile:
  assumes "prompt (ui a) = [] \<and> uploadedImage (ui a) = None"
  shows "revoked (handleSubmit_begin a) = revoked a"
    and "requested_counts (handleSubmit_begin a) = requested_counts a"
    and "generatedVideos (ui (handleSubmit_begin a)) = generatedVideos (ui a)"
    and "isLoading (ui (handleSubmit_begin a)) = isLoading (ui a)"
    and "inflight (handleSubmit_begin a) = inflight a"
    and "created (web (handleSubmit_begin a)) = created (web a)"
    and "numberOfVideos (ui (handleSubmit_begin a)) = numberOfVideos (ui a)"
  using assms by (simp_all add: begin_invalid revoked_def requested_counts_def)

lemma clear_profile:
  "revoked (handleClear a) = revoked a @ generatedVideos (ui a)"
  "requested_counts (handleClear a) = requested_counts a"
  "generatedVideos (ui (handleClear a)) = []"
  "isLoading (ui (handleClear a)) = isLoading (ui a)"
  "inflight (handleClear a) = inflight a"
  "created (web (handleClear a)) = created (web a)"
  "numberOfVideos (ui (handleClear a)) = Finite 1"
  by (simp_all add: handleClear_def revoked_def requested_counts_def revocations_append
      requests_append revocations_map requests_map_revoke)

subsection \<open>What holds after every sequence of events\<close>

lemma run_append: "run (evs @ evs') a = run evs' (run evs a)"
  by (induction evs arbitrary: a) simp_all

lemma run_snoc: "run (evs @ [ev]) a = step ev (run evs a)"
  by (simp add: run_append)

lemma consistent_initial: "consistent initial_app"
  by (simp add: consistent_def initial_app_def initial_session_def revoked_def)

lemma consistent_clear:
  assumes "consistent a"
  shows "consistent (handleClear a)"
  using assms unfolding consistent_def clear_profile
  by auto

lemma consistent_begin:
  assumes "consistent a" and "\<not> isLoading (ui a)"
  shows "consistent (handleSubmit_begin a)"
proof (cases "prompt (ui a) = [] \<and> uploadedImage (ui a) = None")
  case True
  from assms(1) show ?thesis
    unfolding consistent_def begin_invalid_profile [OF True] .
next
  case False
  from assms begin_profile(4) [OF False] show ?thesis
    unfolding consistent_def begin_profile(1,3,5,6) [OF False] by auto
qed

lemma consistent_resume:
  assumes "consistent a"
  shows "consistent (handleSubmit_resume e i a)"
proof (cases "i < length (inflight a)")
  case False
  with assms show ?thesis by (simp add: resume_idle)
next
  case True
  let ?a = "handleSubmit_resume e i a"
  note prof = resume_profile [OF True, of e]
  from assms True have one: "inflight a = [inflight a ! 0]" "i = 0"
    unfolding consistent_def by (cases "inflight a"; simp)+
  from assms True have busy: "isLoading (ui a)" "generatedVideos (ui a) = []"
    unfolding consistent_def by auto
  have idle: "inflight ?a = []"
    using prof one by (metis append_Nil drop0 drop_Suc_Cons take_0)
  have le: "created (web a) \<le> created (web ?a)" using prof by blast
  have rev: "revoked ?a = revoked a" using prof by blast
  have quiet: "\<not> isLoading (ui ?a)" using prof by blast
  from prof busy have shown:
    "generatedVideos (ui ?a) = [] \<or> generatedVideos (ui ?a) = [created (web a)..<created (web ?a)]"
    by auto
  from assms have old: "distinct (revoked a)" "\<forall>h \<in> set (revoked a). h < created (web a)"
    unfolding consistent_def by auto
  from shown show ?thesis
  proof
    assume "generatedVideos (ui ?a) = []"
    with old le rev quiet idle show ?thesis
      unfolding consistent_def by auto
  next
    assume "generatedVideos (ui ?a) = [created (web a)..<created (web ?a)]"
    with old le rev quiet idle show ?thesis
      unfolding consistent_def by auto
  qed
qed

lemma consistent_step:
  assumes "consistent a"
  shows "consistent (step ev a)"
proof (cases ev)
  case ClickClear
  with assms show ?thesis by (simp add: consistent_clear)
next
  case Submit
  with assms show ?thesis by (simp add: submitForm_def consistent_begin)
next
  case (Settle i e)
  with assms show ?thesis by (simp add: consistent_resume)
next
  case (ClickAspectRatio r)
  with assms show ?thesis by (simp add: consistent_def revoked_def)
qed (use assms in \<open>simp_all add: consistent_def revoked_def handleRemoveImage_def
      closeErrorModal_def changeNumberOfVideos_def Let_def\<close>)

lemma consistent_run: "consistent a \<Longrightarrow> consistent (run evs a)"
  by (induction evs arbitrary: a) (simp_all add: consistent_step)

lemma consistent_reachable: "consistent (run evs initial_app)"
  by (simp add: consistent_run consistent_initial)

lemma count_list_distinct:
  "distinct xs \<Longrightarrow> count_list xs h = (if h \<in> set xs then 1 else 0)"
  by (induction xs) auto

lemma accounted_released:
  assumes "consistent a" and "accounted a h"
    and "generatedVideos (ui a') = []"
    and "revoked a' = revoked a @ generatedVideos (ui a)"
  shows "accounted a' h"
proof -
  from assms(1) have d: "distinct (generatedVideos (ui a))"
    and apart: "set (generatedVideos (ui a)) \<inter> set (revoked a) = {}"
    unfolding consistent_def by auto
  show ?thesis
  proof (cases "h \<in> set (generatedVideos (ui a))")
    case True
    with assms(2) have "count_list (revoked a) h = 0" by (simp add: accounted_def)
    moreover from d True have "count_list (generatedVideos (ui a)) h = 1"
      by (simp add: count_list_distinct)
    ultimately show ?thesis using assms(3,4) by (simp add: accounted_def)
  next
    case False
    with assms(2) have "count_list (revoked a) h = 1" by (simp add: accounted_def)
    moreover from False have "count_list (generatedVideos (ui a)) h = 0" by simp
    ultimately show ?thesis using assms(3,4) by (simp add: accounted_def)
  qed
qed

lemma accounted_resume:
  assumes "consistent a" and "accounted a h"
  shows "accounted (handleSubmit_resume e i a) h"
proof (cases "i < length (inflight a)")
  case False
  with assms show ?thesis by (simp add: resume_idle)
next
  case True
  let ?a = "handleSubmit_resume e i a"
  note prof = resume_profile [OF True, of e]
  from assms(1) True have busy: "generatedVideos (ui a) = []"
    unfolding consistent_def by auto
  with assms(2) have once: "count_list (revoked a) h = 1" by (simp add: accounted_def)
  then have "h \<in> set (revoked a)"
    by (metis count_list_0_iff zero_neq_one)
  with assms(1) have "h < created (web a)" unfolding consistent_def by auto
  then have "h \<notin> set [created (web a)..<created (web ?a)]" by simp
  with prof busy have "h \<notin> set (generatedVideos (ui ?a))" by auto
  moreover from prof have "revoked ?a = revoked a" by blast
  ultimately show ?thesis using once by (simp add: accounted_def)
qed

lemma typing_and_settings_keep_videos:
  assumes "ev \<noteq> ClickClear" and "ev \<noteq> Submit" and "\<forall>i e. ev \<noteq> Settle i e"
  shows "generatedVideos (ui (step ev a)) = generatedVideos (ui a)
         \<and> revoked (step ev a) = revoked a
         \<and> requested_counts (step ev a) = requested_counts a"
  using assms
  by (cases ev)
    (simp_all add: revoked_def requested_counts_def handleRemoveImage_def closeErrorModal_def
      changeNumberOfVideos_def Let_def)

lemma accounted_step:
  assumes "consistent a" and "accounted a h"
  shows "accounted (step ev a) h"
proof (cases ev)
  case ClickClear
  from accounted_released [OF assms clear_profile(3,1)] ClickClear show ?thesis by simp
next
  case Submit
  show ?thesis
  proof (cases "isLoading (ui a) \<or> (prompt (ui a) = [] \<and> uploadedImage (ui a) = None)")
    case True
    have "generatedVideos (ui (submitForm a)) = generatedVideos (ui a)
          \<and> revoked (submitForm a) = revoked a"
    proof (cases "isLoading (ui a)")
      case True
      then show ?thesis by (simp add: submitForm_def)
    next
      case False
      with True have invalid: "prompt (ui a) = [] \<and> uploadedImage (ui a) = None" by blast
      from False have "submitForm a = handleSubmit_begin a" by (simp add: submitForm_def)
      with begin_invalid_profile(1,3) [OF invalid] show ?thesis by simp
    qed
    with assms(2) Submit show ?thesis by (simp add: accounted_def)
  next
    case False
    then have valid: "\<not> (prompt (ui a) = [] \<and> uploadedImage (ui a) = None)" by blast
    from False have "submitForm a = handleSubmit_begin a" by (simp add: submitForm_def)
    with accounted_released [OF assms begin_profile(3,1) [OF valid]] Submit
    show ?thesis by simp
  qed
next
  case (Settle i e)
  with accounted_resume [OF assms] show ?thesis by simp
qed (use assms(2) typing_and_settings_keep_videos [of ev a] in \<open>simp_all add: accounted_def\<close>)

lemma accounted_run:
  "consistent a \<Longrightarrow> accounted a h \<Longrightarrow> accounted (run evs a) h"
  by (induction evs arbitrary: a) (simp_all add: consistent_step accounted_step)

lemma shown_accounted:
  assumes "consistent a" and "h \<in> set (generatedVideos (ui a))"
  shows "accounted a h"
proof -
  from assms have "h \<notin> set (revoked a)" unfolding consistent_def by auto
  with assms(2) show ?thesis by (simp add: accounted_def)
qed

lemma once_shown_accounted:
  assumes "k \<le> length evs"
    and "h \<in> set (generatedVideos (ui (run (take k evs) initial_app)))"
  shows "accounted (run evs initial_app) h"
proof -
  have "run evs initial_app = run (drop k evs) (run (take k evs) initial_app)"
    by (metis append_take_drop_id run_append)
  moreover have "accounted (run (drop k evs) (run (take k evs) initial_app)) h"
    using accounted_run [OF consistent_reachable shown_accounted [OF consistent_reachable assms(2)]] .
  ultimately show ?thesis by simp
qed





subsection \<open>The example runs\<close>

lemma good_generate:
  "generate good_env p n =
     (Inr [n, n + 1], n + 2,
      [SetLoadingMessage ''Generating video... This can take a few minutes.'',
       Sleep 10000, GetVideosOperation pending_operation,
       SetLoadingMessage ''Polling for status (1/60)... Please wait.'',
       Sleep 10000, GetVideosOperation pending_operation,
       SetLoadingMessage ''Polling for status (2/60)... Please wait.'',
       Sleep 10000, GetVideosOperation pending_operation,
       SetLoadingMessage ''Polling for status (3/60)... Please wait.'',
       SetLoadingMessage ''Fetching video data...'',
       Fetch ''https://v/1?alt=media&key=KEY'', CreateObjectURL ''mp4 bytes'' n,
       Fetch ''https://v/2?alt=media&key=KEY'', CreateObjectURL ''mp4 bytes'' (n + 1)])"
  by (simp add: generate_def good_env_def pending_operation_def finished_operation_def
      ok_response_def maxPolls_def polling_message_def videos_of_def digit_char_def
      pollLoop.simps fetchVideos.simps)

lemma good_run:
  "generatedVideos (ui (handleSubmit good_env cat_app)) = [0, 1]"
  "prompt (ui (handleSubmit good_env cat_app)) = ''a cat on a skateboard''"
  "uploadedImage (ui (handleSubmit good_env cat_app)) = None"
  "isLoading (ui (handleSubmit good_env cat_app)) = False"
  "created (web (handleSubmit good_env cat_app)) = 2"
  "revoked (handleSubmit good_env cat_app) = []"
  "inflight (handleSubmit good_env cat_app) = []"
proof -
  have valid: "\<not> (prompt (ui cat_app) = [] \<and> uploadedImage (ui cat_app) = None)"
    by (simp add: cat_app_simps)
  note run = handleSubmit_succeeds [OF valid good_generate]
  show "generatedVideos (ui (handleSubmit good_env cat_app)) = [0, 1]"
    "prompt (ui (handleSubmit good_env cat_app)) = ''a cat on a skateboard''"
    "uploadedImage (ui (handleSubmit good_env cat_app)) = None"
    "isLoading (ui (handleSubmit good_env cat_app)) = False"
    "created (web (handleSubmit good_env cat_app)) = 2"
    "revoked (handleSubmit good_env cat_app) = []"
    "inflight (handleSubmit good_env cat_app) = []"
    unfolding run by (simp_all add: cat_app_simps revoked_def)
qed

lemma showing_app_simps:
  "prompt (ui showing_app) = []"
  "uploadedImage (ui showing_app) = None"
  "generatedVideos (ui showing_app) = [0, 1]"
  "isLoading (ui showing_app) = False"
  "revoked showing_app = []"
  by (simp_all add: showing_app_def good_run revoked_def [of "_\<lparr>ui := _\<rparr>"]
      revoked_def [of "handleSubmit good_env cat_app", symmetric])

lemma two_runs_result:
  "revoked (run two_runs initial_app) = [0, 1, 2, 3]"
  "generatedVideos (ui (run two_runs initial_app)) = []"
  "generatedVideos (ui (run (take 3 two_runs) initial_app)) = [0, 1]"
  "generatedVideos (ui (run (take 7 two_runs) initial_app)) = [2, 3]"
  by (simp_all add: two_runs_def initial_app_def initial_session_def submitForm_def
      handleSubmit_begin_def handleSubmit_resume_def good_generate handleClear_def revoked_def
      build_payload_def Let_def)

lemma busy_app:
  "isLoading (ui (step Submit cat_app))"
  "inflight (step Submit cat_app) = [build_payload (ui cat_app)]"
  "generatedVideos (ui (step (Settle 0 good_env) (step Submit cat_app))) = [0, 1]"
  "prompt (ui (step (Settle 0 good_env) (step Submit cat_app))) = ''a cat on a skateboard''"
  by (simp_all add: cat_app_def initial_app_def initial_session_def submitForm_def
      handleSubmit_begin_def handleSubmit_resume_def good_generate Let_def)





section \<open>Properties\<close>

subsection \<open>Validation\<close>

text \<open>
  C7. A submission with an empty prompt and no reference image is refused by the
  validation at the head of \<open>handleSubmit\<close>: the validation message is shown in the
  error dialog, the log of effects is what it was, so no call to the service or the
  network is made, and no call is left suspended. The handler ends at its first
  return, before anything is awaited.
\<close>

theorem empty_submission_is_rejected:
  assumes "prompt (ui a) = []" and "uploadedImage (ui a) = None"
  shows "errorMessage (ui (handleSubmit e a)) = Text validation_message
         \<and> showErrorModal (ui (handleSubmit e a))
         \<and> effects (web (handleSubmit e a)) = effects (web a)
         \<and> inflight (handleSubmit e a) = inflight a
         \<and> handleSubmit_begin a = handleSubmit e a"
  using assms by (simp add: handleSubmit_invalid begin_invalid)

theorem empty_submission_is_rejected_witness:
  "prompt (ui initial_app) = [] \<and> uploadedImage (ui initial_app) = None
   \<and> errorMessage (ui (handleSubmit good_env initial_app)) = Text validation_message
   \<and> showErrorModal (ui (handleSubmit good_env initial_app))
   \<and> effects (web (handleSubmit good_env initial_app)) = []
   \<and> inflight (handleSubmit good_env initial_app) = []"
  using empty_submission_is_rejected [of initial_app good_env]
  by (simp add: initial_app_simps)

text \<open>
  C10. A submission that fails validation changes nothing but the error display: the
  page afterwards is the page before with \<open>errorMessage\<close> and \<open>showErrorModal\<close> set.
  The shown videos are neither emptied nor revoked (the browser, with its log, is
  untouched), \<open>isLoading\<close> is not set, and the prompt, the uploaded image and the
  settings are what they were.
\<close>

theorem failed_validation_frame:
  assumes "prompt (ui a) = []" and "uploadedImage (ui a) = None"
  shows "handleSubmit e a =
           a\<lparr>ui := (ui a)\<lparr>errorMessage := Text validation_message, showErrorModal := True\<rparr>\<rparr>
         \<and> generatedVideos (ui (handleSubmit e a)) = generatedVideos (ui a)
         \<and> web (handleSubmit e a) = web a
         \<and> isLoading (ui (handleSubmit e a)) = isLoading (ui a)
         \<and> prompt (ui (handleSubmit e a)) = prompt (ui a)
         \<and> uploadedImage (ui (handleSubmit e a)) = uploadedImage (ui a)
         \<and> numberOfVideos (ui (handleSubmit e a)) = numberOfVideos (ui a)
         \<and> aspectRatio (ui (handleSubmit e a)) = aspectRatio (ui a)"
  using assms by (simp add: handleSubmit_invalid)

theorem failed_validation_frame_witness:
  "prompt (ui showing_app) = [] \<and> uploadedImage (ui showing_app) = None
   \<and> generatedVideos (ui (handleSubmit stalled_env showing_app)) = [0, 1]
   \<and> revoked (handleSubmit stalled_env showing_app) = []
   \<and> web (handleSubmit stalled_env showing_app) = web showing_app
   \<and> \<not> isLoading (ui (handleSubmit stalled_env showing_app))
   \<and> showErrorModal (ui (handleSubmit stalled_env showing_app))"
proof -
  have same: "revoked (handleSubmit stalled_env showing_app) = revoked showing_app"
    if "web (handleSubmit stalled_env showing_app) = web showing_app"
    using that by (simp add: revoked_def)
  show ?thesis
    using failed_validation_frame [of showing_app stalled_env] same
    by (simp add: showing_app_simps)
qed

subsection \<open>Error classification\<close>

text \<open>
  C9. \<open>parseError\<close> is stateless and deterministic. Its answer does not depend on the
  store of RegExp objects it is started in, so a second invocation on the same raw
  message, run after the first one and in the store the first one left, gives the same
  answer; and no object that existed before the call is changed. The only object it
  writes is the one its own regular-expression literal creates.
\<close>

theorem parseError_deterministic:
  "fst (parseError error h') = fst (parseError error h)
   \<and> fst (parseError error (snd (parseError error h))) = fst (parseError error h)
   \<and> take (length h) (snd (parseError error h)) = h"
  by (simp add: parseError_fresh)

subsection \<open>The polling loop\<close>

text \<open>
  C4. When the request is accepted with a job that is not done and every poll answers
  with a handle that is not done, the loop makes exactly 60 polls: poll number \<open>k\<close>
  waits 10000 ms, queries with the handle the poll before returned, and reports
  \<open>k + 1\<close> of 60. The waits add up to 60 times 10000 ms, and no run of the loop, whatever
  the service answers, waits longer. The run then throws the time-out error, which is
  shown as it is; nothing is fetched, no object URL is created and no video is shown.
\<close>

theorem stalled_job_times_out:
  assumes "\<not> (prompt (ui a) = [] \<and> uploadedImage (ui a) = None)"
    and "generateVideos e (build_payload (ui a)) = Inr operation0"
    and "\<not> op_done operation0"
    and "\<forall>k<maxPolls. \<exists>operation'.
           getVideosOperation e k (handle_after e operation0 k) = Inr operation'
           \<and> \<not> op_done operation'"
  shows "pollLoop e operation0 0 =
           (Inr (handle_after e operation0 60), 60,
            concat (map (poll_round e operation0) [0..<60]))
         \<and> polls (concat (map (poll_round e operation0) [0..<60]))
             = map (handle_after e operation0) [0..<60]
         \<and> total_sleep (concat (map (poll_round e operation0) [0..<60])) = 60 * 10000
         \<and> (\<forall>e' operation'. total_sleep (snd (snd (pollLoop e' operation' 0))) \<le> 60 * 10000)
         \<and> fst (generate e (build_payload (ui a)) (created (web a))) = Inl timed_out
         \<and> errorMessage (ui (handleSubmit e a)) = Text timed_out
         \<and> showErrorModal (ui (handleSubmit e a))
         \<and> \<not> isLoading (ui (handleSubmit e a))
         \<and> generatedVideos (ui (handleSubmit e a)) = []
         \<and> created (web (handleSubmit e a)) = created (web a)
         \<and> effects (web (handleSubmit e a)) =
               effects (web a) @ map RevokeObjectURL (generatedVideos (ui a))
                 @ [SetLoadingMessage ''Initializing video generation...'',
                    GenerateVideos (build_payload (ui a)),
                    SetLoadingMessage ''Generating video... This can take a few minutes.'']
                 @ concat (map (poll_round e operation0) [0..<60])
                 @ [ConsoleError timed_out, SetLoadingMessage []]
         \<and> fetches (effects (web (handleSubmit e a))) = fetches (effects (web a))"
proof -
  have loop: "pollLoop e operation0 0 =
                (Inr (handle_after e operation0 maxPolls), maxPolls,
                 concat (map (poll_round e operation0) [0..<maxPolls]))"
    using poll_rounds_from [OF assms(4) assms(3), of 0] by simp
  have stuck: "\<not> op_done (handle_after e operation0 maxPolls)"
  proof -
    have "maxPolls - 1 < maxPolls" by (simp add: maxPolls_def)
    with assms(4) obtain o' where
      "getVideosOperation e (maxPolls - 1) (handle_after e operation0 (maxPolls - 1)) = Inr o'"
      "\<not> op_done o'" by blast
    moreover have "maxPolls = Suc (maxPolls - 1)" by (simp add: maxPolls_def)
    ultimately show ?thesis by (metis handle_after.simps(2) sum.simps(6))
  qed
  have gen: "generate e (build_payload (ui a)) (created (web a)) =
               (Inl timed_out, created (web a),
                SetLoadingMessage ''Generating video... This can take a few minutes.''
                  # concat (map (poll_round e operation0) [0..<maxPolls]))"
    using generate_timeout [OF assms(2) loop stuck] .
  have run: "handleSubmit e a =
           \<lparr>ui = (ui a)\<lparr>generatedVideos := [],
                        errorMessage := Text timed_out,
                        showErrorModal := True, isLoading := False, loadingMessage := []\<rparr>,
            web = \<lparr>created = created (web a),
                   regexps = regexps (web a) @ [0],
                   effects = effects (web a) @ map RevokeObjectURL (generatedVideos (ui a))
                     @ [SetLoadingMessage ''Initializing video generation...'',
                        GenerateVideos (build_payload (ui a))]
                     @ (SetLoadingMessage ''Generating video... This can take a few minutes.''
                         # concat (map (poll_round e operation0) [0..<maxPolls]))
                     @ [ConsoleError timed_out, SetLoadingMessage []]\<rparr>,
            inflight = inflight a\<rparr>"
    using handleSubmit_fails [OF assms(1) gen]
    by (simp add: classify_plain [OF timed_out_plain])
  have bound: "total_sleep (snd (snd (pollLoop e' operation' 0))) \<le> 60 * 10000"
    for e' operation'
    using pollLoop_bounds [of e' operation' 0] by (simp add: maxPolls_def)
  have sleep: "total_sleep (concat (map (poll_round e operation0) [0..<maxPolls])) = 60 * 10000"
    using total_sleep_rounds [of e operation0 0 maxPolls] by (simp add: maxPolls_def)
  have m: "maxPolls = 60" by (simp add: maxPolls_def)
  show ?thesis
    using loop gen bound sleep unfolding run m
    by (simp add: fetches_append fetches_map_revoke fetches_rounds polls_rounds)
qed

theorem stalled_job_times_out_witness:
  "pollLoop stalled_env pending_operation 0 =
     (Inr pending_operation, 60,
      concat (map (poll_round stalled_env pending_operation) [0..<60]))
   \<and> errorMessage (ui (handleSubmit stalled_env cat_app)) = Text timed_out
   \<and> generatedVideos (ui (handleSubmit stalled_env cat_app)) = []
   \<and> created (web (handleSubmit stalled_env cat_app)) = 0
   \<and> fetches (effects (web (handleSubmit stalled_env cat_app))) = []"
proof -
  have h1: "\<not> (prompt (ui cat_app) = [] \<and> uploadedImage (ui cat_app) = None)"
    by (simp add: cat_app_simps)
  have h2: "generateVideos stalled_env (build_payload (ui cat_app)) = Inr pending_operation"
    by (simp add: stalled_env_def good_env_def)
  have h3: "\<not> op_done pending_operation"
    by (simp add: pending_operation_def)
  have h4: "\<forall>k<maxPolls. \<exists>operation'.
              getVideosOperation stalled_env k (handle_after stalled_env pending_operation k)
                = Inr operation' \<and> \<not> op_done operation'"
    using h3 by (simp add: stalled_handles) (simp add: stalled_env_def)
  show ?thesis
    using stalled_job_times_out [OF h1 h2 h3 h4]
    by (simp add: stalled_handles cat_app_simps fetches_append fetches_rounds)
qed

text \<open>
  C6. When the loop ends with a job that is done and has no videos (no response, no
  \<open>generatedVideos\<close>, or an empty array), the run throws the no-result error. The catch
  block shows that message as it is, which is the treatment of an unclassified error;
  nothing is fetched, no object URL is created and no video is shown.
\<close>

theorem empty_result_fails:
  assumes "\<not> (prompt (ui a) = [] \<and> uploadedImage (ui a) = None)"
    and "generateVideos e (build_payload (ui a)) = Inr operation0"
    and "pollLoop e operation0 0 = (Inr operation, k, effs)"
    and "op_done operation"
    and "videos_of operation = None \<or> videos_of operation = Some []"
  shows "fst (generate e (build_payload (ui a)) (created (web a))) = Inl no_result
         \<and> errorMessage (ui (handleSubmit e a)) = Text no_result
         \<and> showErrorModal (ui (handleSubmit e a))
         \<and> \<not> isLoading (ui (handleSubmit e a))
         \<and> generatedVideos (ui (handleSubmit e a)) = []
         \<and> created (web (handleSubmit e a)) = created (web a)
         \<and> effects (web (handleSubmit e a)) =
               effects (web a) @ map RevokeObjectURL (generatedVideos (ui a))
                 @ [SetLoadingMessage ''Initializing video generation...'',
                    GenerateVideos (build_payload (ui a)),
                    SetLoadingMessage ''Generating video... This can take a few minutes.'']
                 @ effs @ [ConsoleError no_result, SetLoadingMessage []]
         \<and> fetches (effects (web (handleSubmit e a))) = fetches (effects (web a))"
proof -
  have gen: "generate e (build_payload (ui a)) (created (web a)) =
               (Inl no_result, created (web a),
                SetLoadingMessage ''Generating video... This can take a few minutes.'' # effs)"
    using generate_no_result [OF assms(2-5)] .
  have quiet: "fetches effs = []"
    using pollLoop_bounds [of e operation0 0] assms(3) by simp
  have run: "handleSubmit e a =
           \<lparr>ui = (ui a)\<lparr>generatedVideos := [],
                        errorMessage := Text no_result,
                        showErrorModal := True, isLoading := False, loadingMessage := []\<rparr>,
            web = \<lparr>created = created (web a),
                   regexps = regexps (web a) @ [0],
                   effects = effects (web a) @ map RevokeObjectURL (generatedVideos (ui a))
                     @ [SetLoadingMessage ''Initializing video generation...'',
                        GenerateVideos (build_payload (ui a))]
                     @ (SetLoadingMessage ''Generating video... This can take a few minutes.''
                         # effs)
                     @ [ConsoleError no_result, SetLoadingMessage []]\<rparr>,
            inflight = inflight a\<rparr>"
    using handleSubmit_fails [OF assms(1) gen]
    by (simp add: classify_plain [OF no_result_plain])
  show ?thesis
    using gen quiet unfolding run
    by (simp add: fetches_append fetches_map_revoke)
qed

theorem empty_result_fails_witness:
  "errorMessage (ui (handleSubmit empty_env cat_app)) = Text no_result
   \<and> showErrorModal (ui (handleSubmit empty_env cat_app))
   \<and> generatedVideos (ui (handleSubmit empty_env cat_app)) = []
   \<and> created (web (handleSubmit empty_env cat_app)) = 0
   \<and> fetches (effects (web (handleSubmit empty_env cat_app))) = []"
proof -
  let ?operation = "\<lparr>op_name = ''operations/1'', op_done = True,
                      op_response = Some \<lparr>response_generatedVideos = Some []\<rparr>\<rparr>"
  have h1: "\<not> (prompt (ui cat_app) = [] \<and> uploadedImage (ui cat_app) = None)"
    by (simp add: cat_app_simps)
  have h2: "generateVideos empty_env (build_payload (ui cat_app)) = Inr ?operation"
    by (simp add: empty_env_def)
  have h3: "pollLoop empty_env ?operation 0 = (Inr ?operation, 0, [])"
    by (subst pollLoop.simps) simp
  have h4: "op_done ?operation" by simp
  have h5: "videos_of ?operation = None \<or> videos_of ?operation = Some []"
    by (simp add: videos_of_def)
  show ?thesis
    using empty_result_fails [OF h1 h2 h3 h4 h5]
    by (simp add: cat_app_simps)
qed

subsection \<open>The download loop\<close>

text \<open>
  C5. The downloads run in order. When download number \<open>j\<close> of the \<open>N\<close> videos is
  answered with a response that is not \<open>ok\<close> (the downloads before it having
  succeeded, or the run would not have reached it), the run throws the download error
  with that response's status text, the error dialog is opened with the text the catch
  block makes of it, and no video is shown. And the loop hands over an array of object
  URLs only when every one of the downloads succeeded; the array then has one URL for
  each video.
\<close>

theorem download_all_or_nothing:
  assumes "\<not> (prompt (ui a) = [] \<and> uploadedImage (ui a) = None)"
    and "generateVideos e (build_payload (ui a)) = Inr operation0"
    and "pollLoop e operation0 0 = (Inr operation, k, effs)"
    and "op_done operation"
    and "videos_of operation = Some videos"
    and "j < length videos"
    and "\<forall>i<j. retrieved e videos i"
    and "fetch e j (video_uri (videos ! j) @ ''&key='' @ API_KEY e) = Inr r"
    and "\<not> fetch_ok r"
  shows "fst (generate e (build_payload (ui a)) (created (web a)))
           = Inl (''Failed to download video: '' @ fetch_statusText r)
         \<and> generatedVideos (ui (handleSubmit e a)) = []
         \<and> showErrorModal (ui (handleSubmit e a))
         \<and> errorMessage (ui (handleSubmit e a))
             = fst (classify (build_payload (ui a))
                     (''Failed to download video: '' @ fetch_statusText r) (regexps (web a)))
         \<and> \<not> isLoading (ui (handleSubmit e a))
         \<and> (\<forall>e' videos' n' urls' m' effs'.
               fetchVideos e' videos' 0 n' [] = (Inr urls', m', effs') \<longrightarrow>
                 length urls' = length videos' \<and> (\<forall>i<length videos'. retrieved e' videos' i))"
proof -
  obtain res n' fetchEffects where
    dl: "fetchVideos e videos 0 (created (web a)) [] = (res, n', fetchEffects)"
    by (cases "fetchVideos e videos 0 (created (web a)) []") auto
  have "fst (fetchVideos e (drop 0 videos) 0 (created (web a)) [])
          = Inl (''Failed to download video: '' @ fetch_statusText r)"
    using fetchVideos_refused [OF assms(6,8,9), of 0] assms(7) by simp
  with dl have res: "res = Inl (''Failed to download video: '' @ fetch_statusText r)"
    by simp
  have nonempty: "videos \<noteq> []" using assms(6) by auto
  have gen: "generate e (build_payload (ui a)) (created (web a)) =
               (Inl (''Failed to download video: '' @ fetch_statusText r), n',
                SetLoadingMessage ''Generating video... This can take a few minutes.'' # effs
                  @ SetLoadingMessage ''Fetching video data...'' # fetchEffects)"
    using generate_fetches [OF assms(2-5) nonempty dl] res by simp
  note run = handleSubmit_fails [OF assms(1) gen]
  have whole: "length urls' = length videos' \<and> (\<forall>i<length videos'. retrieved e' videos' i)"
    if "fetchVideos e' videos' 0 n0 [] = (Inr urls', m', effs')"
    for e' videos' n0 urls' m' effs'
  proof -
    from fetchVideos_profile [OF that] have "urls' = [] @ [n0..<m']" "m' = n0 + length videos'"
      by blast+
    then have "length urls' = length videos'" by simp
    moreover have "\<forall>i<length videos'. retrieved e' videos' i"
      using fetchVideos_complete [of 0 videos' e' n0 "[]" urls' m' effs'] that by simp
    ultimately show ?thesis by (rule conjI)
  qed
  show ?thesis
    unfolding run using gen whole by simp
qed

theorem download_all_or_nothing_witness:
  "errorMessage (ui (handleSubmit forbidden_env cat_app))
     = Text ''Failed to download video: Forbidden''
   \<and> showErrorModal (ui (handleSubmit forbidden_env cat_app))
   \<and> generatedVideos (ui (handleSubmit forbidden_env cat_app)) = []"
proof -
  let ?videos = "[\<lparr>video_uri = ''https://v/1?alt=media''\<rparr>, \<lparr>video_uri = ''https://v/2?alt=media''\<rparr>]"
  have h1: "\<not> (prompt (ui cat_app) = [] \<and> uploadedImage (ui cat_app) = None)"
    by (simp add: cat_app_simps)
  have h2: "generateVideos forbidden_env (build_payload (ui cat_app)) = Inr pending_operation"
    by (simp add: forbidden_env_def good_env_def)
  note h3 = good_polls [of "\<lambda>k url. if k = 1 then Inr forbidden_response else Inr ok_response",
      folded forbidden_env_def]
  have h4: "op_done (finished_operation [''https://v/1?alt=media'', ''https://v/2?alt=media''])"
    by (simp add: finished_operation_def)
  have h5: "videos_of (finished_operation [''https://v/1?alt=media'', ''https://v/2?alt=media''])
              = Some ?videos"
    by (simp add: finished_operation_def videos_of_def)
  have h6: "1 < length ?videos" by simp
  have h7: "\<forall>i<1. retrieved forbidden_env ?videos i"
    by (simp add: retrieved_def forbidden_env_def ok_response_def)
  have h8: "fetch forbidden_env 1 (video_uri (?videos ! 1) @ ''&key='' @ API_KEY forbidden_env)
              = Inr forbidden_response"
    by (simp add: forbidden_env_def)
  have h9: "\<not> fetch_ok forbidden_response"
    by (simp add: forbidden_response_def)
  have st: "fetch_statusText forbidden_response = ''Forbidden''"
    by (simp add: forbidden_response_def)
  show ?thesis
    using download_all_or_nothing [OF h1 h2 h3 h4 h5 h6 h7 h8 h9]
    by (simp add: st classify_plain [OF forbidden_plain])
qed

subsection \<open>The error shown after a failed run\<close>

text \<open>
  C2, as the code has it. The catch block looks for the marker of a missing entity
  before it calls \<open>parseError\<close>. So for a raw message that holds both quota markers,
  \<open>parseError\<close> itself answers the quota notice whatever else the message holds, and
  the failed run shows the quota notice when the message does not hold
  \<open>Requested entity was not found\<close>; when it does, the run shows the model-not-found
  text instead.
\<close>

theorem quota_error_classification:
  assumes "\<not> (prompt (ui a) = [] \<and> uploadedImage (ui a) = None)"
    and "generate e (build_payload (ui a)) (created (web a)) = (Inl m, n, effs)"
    and "str_includes m ''429''" and "str_includes m ''RESOURCE_EXHAUSTED''"
  shows "fst (parseError m h) = rate_limit_notice
         \<and> errorMessage (ui (handleSubmit e a)) =
             (if str_includes m not_found_marker
              then Text (model_not_found ''veo-2.0-generate-001'') else rate_limit_notice)
         \<and> showErrorModal (ui (handleSubmit e a))"
  unfolding handleSubmit_fails [OF assms(1,2)]
  using assms(3,4) by (simp add: classify_quota parseError_fresh)

theorem quota_error_classification_witness:
  "errorMessage (ui (handleSubmit quota_env cat_app)) = rate_limit_notice
   \<and> showErrorModal (ui (handleSubmit quota_env cat_app))"
proof -
  have h1: "\<not> (prompt (ui cat_app) = [] \<and> uploadedImage (ui cat_app) = None)"
    by (simp add: cat_app_simps)
  have h2: "generate quota_env (build_payload (ui cat_app)) (created (web cat_app))
              = (Inl quota_message, 0, [])"
    by (simp add: generate_def quota_env_def cat_app_simps)
  show ?thesis
    using quota_error_classification [OF h1 h2 quota_message_markers(1,2)]
    by (simp add: quota_message_markers)
qed

text \<open>
  The claim as stated fails on a message that holds the quota markers and the
  missing-entity marker: the run shows the model-not-found text, not the quota notice.
\<close>

theorem quota_error_classification_counterexample:
  "str_includes mixed_message ''429''
   \<and> str_includes mixed_message ''RESOURCE_EXHAUSTED''
   \<and> fst (generate mixed_env (build_payload (ui cat_app)) (created (web cat_app)))
       = Inl mixed_message
   \<and> errorMessage (ui (handleSubmit mixed_env cat_app))
       = Text ''Error: The model 'veo-2.0-generate-001' was not found. Please check the model name.''
   \<and> errorMessage (ui (handleSubmit mixed_env cat_app)) \<noteq> rate_limit_notice"
proof -
  have h1: "\<not> (prompt (ui cat_app) = [] \<and> uploadedImage (ui cat_app) = None)"
    by (simp add: cat_app_simps)
  have h2: "generate mixed_env (build_payload (ui cat_app)) (created (web cat_app))
              = (Inl mixed_message, 0, [])"
    by (simp add: generate_def mixed_env_def cat_app_simps)
  have shown: "errorMessage (ui (handleSubmit mixed_env cat_app))
                 = Text (model_not_found ''veo-2.0-generate-001'')"
    unfolding handleSubmit_fails [OF h1 h2]
    by (simp add: classify_quota mixed_message_markers)
  show ?thesis
    unfolding shown using h2
    by (simp add: mixed_message_markers model_not_found_def rate_limit_notice_def)
qed

subsection \<open>The lifetime of the object URLs\<close>

text \<open>
  C3. After any sequence of events: no object URL has been released twice; every
  object URL that was among the shown videos at some moment is either still shown and
  unreleased, or no longer shown and released exactly once. While a submission is in
  progress nothing is shown: the replacement releases the whole shown batch when the
  submission is accepted (the release is appended to the log and the shown list is
  emptied), and the settling of the run, which installs the new batch, releases nothing
  and installs only URLs that were never released. The bin releases every shown URL and
  leaves none shown, after which every URL that was ever shown has been released
  exactly once. "Eventually" is read as: by the next accepted submission or click on
  the bin; the page has no other release.
\<close>

theorem generated_videos_released_once:
  "distinct (revoked (run evs initial_app))
   \<and> (\<forall>k\<le>length evs. \<forall>h \<in> set (generatedVideos (ui (run (take k evs) initial_app))).
         accounted (run evs initial_app) h)
   \<and> (isLoading (ui (run evs initial_app)) \<longrightarrow> generatedVideos (ui (run evs initial_app)) = [])
   \<and> (\<not> isLoading (ui (run evs initial_app))
        \<and> \<not> (prompt (ui (run evs initial_app)) = [] \<and> uploadedImage (ui (run evs initial_app)) = None)
       \<longrightarrow> revoked (step Submit (run evs initial_app))
             = revoked (run evs initial_app) @ generatedVideos (ui (run evs initial_app))
           \<and> generatedVideos (ui (step Submit (run evs initial_app))) = [])
   \<and> revoked (step (Settle i e) (run evs initial_app)) = revoked (run evs initial_app)
   \<and> (\<forall>h \<in> set (generatedVideos (ui (step (Settle i e) (run evs initial_app)))).
         h \<notin> set (revoked (run evs initial_app)))
   \<and> revoked (step ClickClear (run evs initial_app))
       = revoked (run evs initial_app) @ generatedVideos (ui (run evs initial_app))
   \<and> generatedVideos (ui (step ClickClear (run evs initial_app))) = []
   \<and> (\<forall>k\<le>length evs. \<forall>h \<in> set (generatedVideos (ui (run (take k evs) initial_app))).
         count_list (revoked (step ClickClear (run evs initial_app))) h = 1)"
proof -
  let ?a = "run evs initial_app"
  have inv: "consistent ?a" by (rule consistent_reachable)
  have c1: "distinct (revoked ?a)" using inv unfolding consistent_def by blast
  have c2: "\<forall>k\<le>length evs. \<forall>h \<in> set (generatedVideos (ui (run (take k evs) initial_app))).
              accounted ?a h"
    using once_shown_accounted by blast
  have c3: "isLoading (ui ?a) \<longrightarrow> generatedVideos (ui ?a) = []"
    using inv unfolding consistent_def by blast
  have c4: "\<not> isLoading (ui ?a) \<and> \<not> (prompt (ui ?a) = [] \<and> uploadedImage (ui ?a) = None)
            \<longrightarrow> revoked (step Submit ?a) = revoked ?a @ generatedVideos (ui ?a)
                \<and> generatedVideos (ui (step Submit ?a)) = []"
    by (simp add: submitForm_def begin_profile)
  have inv': "consistent (step (Settle i e) ?a)" using inv by (rule consistent_step)
  have c5: "revoked (step (Settle i e) ?a) = revoked ?a"
    using resume_profile [of i ?a e] resume_idle [of i ?a e]
    by (cases "i < length (inflight ?a)") auto
  have c6: "\<forall>h \<in> set (generatedVideos (ui (step (Settle i e) ?a))). h \<notin> set (revoked ?a)"
    using inv' c5 unfolding consistent_def by auto
  have c7: "revoked (step ClickClear ?a) = revoked ?a @ generatedVideos (ui ?a)"
    "generatedVideos (ui (step ClickClear ?a)) = []"
    by (simp_all add: clear_profile)
  have c8: "\<forall>k\<le>length evs. \<forall>h \<in> set (generatedVideos (ui (run (take k evs) initial_app))).
              count_list (revoked (step ClickClear ?a)) h = 1"
  proof (intro allI impI ballI)
    fix k h
    assume "k \<le> length evs" "h \<in> set (generatedVideos (ui (run (take k evs) initial_app)))"
    then have "accounted ?a h" by (rule once_shown_accounted)
    then have "accounted (step ClickClear ?a) h" by (rule accounted_step [OF inv])
    then show "count_list (revoked (step ClickClear ?a)) h = 1"
      using c7(2) by (simp add: accounted_def)
  qed
  from c1 c2 c3 c4 c5 c6 c7 c8 show ?thesis by blast
qed

theorem generated_videos_released_once_witness:
  "distinct (revoked (run two_runs initial_app))
   \<and> revoked (run two_runs initial_app) = [0, 1, 2, 3]
   \<and> generatedVideos (ui (run (take 3 two_runs) initial_app)) = [0, 1]
   \<and> generatedVideos (ui (run (take 7 two_runs) initial_app)) = [2, 3]
   \<and> generatedVideos (ui (run two_runs initial_app)) = []
   \<and> accounted (run two_runs initial_app) 0
   \<and> accounted (run two_runs initial_app) 3"
proof -
  note whole = generated_videos_released_once [of two_runs 0 good_env]
  from whole have once: "distinct (revoked (run two_runs initial_app))"
    by (rule conjunct1)
  from whole have every:
    "\<forall>k\<le>length two_runs. \<forall>h \<in> set (generatedVideos (ui (run (take k two_runs) initial_app))).
       accounted (run two_runs initial_app) h"
    by blast
  have len: "length two_runs = 8" by (simp add: two_runs_def)
  from every [rule_format, of 3 0] have a0: "accounted (run two_runs initial_app) 0"
    by (simp add: len two_runs_result)
  from every [rule_format, of 7 3] have a3: "accounted (run two_runs initial_app) 3"
    by (simp add: len two_runs_result)
  from once a0 a3 show ?thesis by (simp add: two_runs_result)
qed

subsection \<open>One submission at a time\<close>

text \<open>
  C1. While \<open>isLoading\<close> is true a submission of the form does nothing: the page, with
  its shown videos, its state and its log of calls, is what it was. The guard is the
  submit button's \<open>disabled={isLoading}\<close>; \<open>handleSubmit\<close> itself does not test the flag.
  When the suspended call settles, in success or in failure, \<open>isLoading\<close> is false
  again and the next submission runs \<open>handleSubmit\<close> as any first submission does: with
  a prompt or an image it sets \<open>isLoading\<close>, releases the shown videos and sends the
  request. So after any sequence of events at most one call is suspended, and
  \<open>isLoading\<close> is true exactly while one is.
\<close>

theorem submit_while_busy_is_ignored:
  "(isLoading (ui a) \<longrightarrow> step Submit a = a)
   \<and> (i < length (inflight a) \<longrightarrow>
        \<not> isLoading (ui (step (Settle i e) a))
        \<and> step Submit (step (Settle i e) a) = handleSubmit_begin (step (Settle i e) a))
   \<and> (\<not> isLoading (ui a) \<and> \<not> (prompt (ui a) = [] \<and> uploadedImage (ui a) = None) \<longrightarrow>
        isLoading (ui (step Submit a))
        \<and> effects (web (step Submit a)) =
            effects (web a) @ map RevokeObjectURL (generatedVideos (ui a))
              @ [SetLoadingMessage ''Initializing video generation...'',
                 GenerateVideos (build_payload (ui a))])
   \<and> length (inflight (run evs initial_app)) \<le> 1
   \<and> (isLoading (ui (run evs initial_app)) \<longleftrightarrow> inflight (run evs initial_app) \<noteq> [])"
proof -
  have c1: "isLoading (ui a) \<longrightarrow> step Submit a = a"
    by (simp add: submitForm_def)
  have c2: "i < length (inflight a) \<longrightarrow>
        \<not> isLoading (ui (step (Settle i e) a))
        \<and> step Submit (step (Settle i e) a) = handleSubmit_begin (step (Settle i e) a)"
    using resume_profile [of i a e] by (simp add: submitForm_def)
  have c3: "\<not> isLoading (ui a) \<and> \<not> (prompt (ui a) = [] \<and> uploadedImage (ui a) = None) \<longrightarrow>
        isLoading (ui (step Submit a))
        \<and> effects (web (step Submit a)) =
            effects (web a) @ map RevokeObjectURL (generatedVideos (ui a))
              @ [SetLoadingMessage ''Initializing video generation...'',
                 GenerateVideos (build_payload (ui a))]"
    by (simp add: submitForm_def begin_valid)
  have c4: "length (inflight (run evs initial_app)) \<le> 1
            \<and> (isLoading (ui (run evs initial_app)) \<longleftrightarrow> inflight (run evs initial_app) \<noteq> [])"
    using consistent_reachable [of evs] unfolding consistent_def by blast
  from c1 c2 c3 c4 show ?thesis by blast
qed

theorem submit_while_busy_is_ignored_witness:
  "isLoading (ui (step Submit cat_app))
   \<and> step Submit (step Submit cat_app) = step Submit cat_app
   \<and> \<not> isLoading (ui (step (Settle 0 good_env) (step Submit cat_app)))
   \<and> step Submit (step (Settle 0 good_env) (step Submit cat_app))
       = handleSubmit_begin (step (Settle 0 good_env) (step Submit cat_app))
   \<and> \<not> isLoading (ui (step (Settle 0 stalled_env) (step Submit cat_app)))
   \<and> isLoading (ui (step Submit (step (Settle 0 stalled_env) (step Submit cat_app))))
   \<and> length (inflight (run two_runs initial_app)) \<le> 1"
proof -
  let ?busy = "step Submit cat_app"
  note good = submit_while_busy_is_ignored [of ?busy 0 good_env two_runs]
  note stalled = submit_while_busy_is_ignored [of ?busy 0 stalled_env two_runs]
  have waiting: "0 < length (inflight ?busy)" by (simp add: busy_app del: step.simps)
  from good busy_app(1) have ignored: "step Submit ?busy = ?busy" by blast
  from good waiting have settled:
    "\<not> isLoading (ui (step (Settle 0 good_env) ?busy))"
    "step Submit (step (Settle 0 good_env) ?busy) = handleSubmit_begin (step (Settle 0 good_env) ?busy)"
    by blast+
  from stalled waiting have failed: "\<not> isLoading (ui (step (Settle 0 stalled_env) ?busy))"
    by blast
  have kept: "prompt (ui (step (Settle 0 stalled_env) ?busy)) = prompt (ui ?busy)"
    using resume_profile [OF waiting, of stalled_env] by simp
  have typed: "prompt (ui ?busy) \<noteq> []"
    by (simp add: cat_app_def initial_app_def initial_session_def submitForm_def
        handleSubmit_begin_def Let_def)
  from submit_while_busy_is_ignored [of "step (Settle 0 stalled_env) ?busy" 0 good_env two_runs]
    failed kept typed
  have again: "isLoading (ui (step Submit (step (Settle 0 stalled_env) ?busy)))"
    by (metis (no_types, lifting))
  from good have one: "length (inflight (run two_runs initial_app)) \<le> 1" by blast
  from busy_app(1) ignored settled failed again one show ?thesis by blast
qed

subsection \<open>The number of videos\<close>




end
